theory Spec2Isabelle
  imports Complex_Main "HOL-Library.Multiset"
begin

section \<open>Data model (types module)\<close>

text \<open>
  The TypeScript interfaces of the types module, as records. A JavaScript \<open>number\<close> that
  holds a score is modelled by an \<open>int\<close> (the rubric asks the judge for integers; sums and
  halves of such values are exact in IEEE doubles), and derived averages by exact rationals.
  \<open>overallRanking\<close> is an array position plus one, hence a \<open>nat\<close>; the Judge Client
  creates it as \<open>0\<close>.
\<close>

datatype Severity = low | medium | high

record Falsehood =
  falsehoodId :: string
  description :: string
  severity :: Severity
  location :: string
  correction :: string

record ScoreBlock =
  score :: int
  explanation :: string
  examples :: "string list"

record EvaluationResults =
  detailScore :: ScoreBlock
  truthfulnessScore :: ScoreBlock
  falsehoods :: "Falsehood list"
  summary :: string
  overallRanking :: nat

section \<open>Array.prototype.sort\<close>

text \<open>
  \<open>Array.prototype.sort\<close> with a comparator is a stable sort (ECMAScript 2019 and later;
  the project runs on Node 20). For a comparator that is a consistent ordering the result is
  the unique stable arrangement, computed here by insertion from the right: an element goes
  in front of the first element it does not compare greater than.
\<close>

fun insertBy :: "('a \<Rightarrow> 'a \<Rightarrow> rat) \<Rightarrow> 'a \<Rightarrow> 'a list \<Rightarrow> 'a list" where
  "insertBy cmp x [] = [x]"
| "insertBy cmp x (y # ys) = (if cmp x y \<le> 0 then x # y # ys else y # insertBy cmp x ys)"

definition arraySort :: "('a \<Rightarrow> 'a \<Rightarrow> rat) \<Rightarrow> 'a list \<Rightarrow> 'a list" where
  "arraySort cmp xs = foldr (insertBy cmp) xs []"

section \<open>Ranker: rankEvaluations (lib/openai.ts)\<close>

text \<open>One element of \<open>evaluationsWithComposite\<close>: the spread copy of an evaluation
  together with \<open>compositeScore\<close> and \<open>originalIndex\<close>.\<close>

record WithComposite =
  copyOf :: EvaluationResults
  compositeScore :: rat
  originalIndex :: nat

definition compositeOf :: "EvaluationResults \<Rightarrow> rat" where
  "compositeOf evaluation =
     (of_int (score (detailScore evaluation)) + of_int (score (truthfulnessScore evaluation))) / 2"

definition withComposite :: "EvaluationResults list \<Rightarrow> WithComposite list" where
  "withComposite evaluations =
     map (\<lambda>(index, evaluation).
            \<lparr>copyOf = evaluation, compositeScore = compositeOf evaluation, originalIndex = index\<rparr>)
         (enumerate 0 evaluations)"

definition byCompositeDesc :: "WithComposite \<Rightarrow> WithComposite \<Rightarrow> rat" where
  "byCompositeDesc a b = compositeScore b - compositeScore a"

text \<open>The \<open>forEach\<close> that writes \<open>evaluations[originalIndex].overallRanking = index + 1\<close>.
  Every \<open>originalIndex\<close> is a position of \<open>evaluations\<close>, so the write is always in range.\<close>

definition assignRankings ::
  "WithComposite list \<Rightarrow> EvaluationResults list \<Rightarrow> EvaluationResults list" where
  "assignRankings ordered evaluations =
     fold (\<lambda>(index, w) evs.
             evs[originalIndex w := (evs ! originalIndex w)\<lparr>overallRanking := index + 1\<rparr>])
          (enumerate 0 ordered) evaluations"

text \<open>
  \<open>rankEvaluations\<close> on the values of the records. The source mutates the records of its
  argument and returns the argument itself; as long as the array holds pairwise different
  objects (each record is a fresh object literal of the Judge Client) the values read back
  through the returned array are the ones computed here. The store-level version below makes
  the aliasing explicit.
\<close>

definition rankEvaluations :: "EvaluationResults list \<Rightarrow> EvaluationResults list" where
  "rankEvaluations evaluations =
     (if length evaluations = 0 then evaluations
      else assignRankings (arraySort byCompositeDesc (withComposite evaluations)) evaluations)"

subsection \<open>The same function over an explicit object store\<close>

text \<open>
  Objects live in a store, an array is a list of references. The spread copies are new
  objects that never escape; the only writes go to the records reachable from the argument.
\<close>

type_synonym ref = nat
type_synonym store = "ref \<Rightarrow> EvaluationResults"

definition withCompositeRefs :: "store \<Rightarrow> ref list \<Rightarrow> WithComposite list" where
  "withCompositeRefs h evaluations =
     map (\<lambda>(index, r).
            \<lparr>copyOf = h r, compositeScore = compositeOf (h r), originalIndex = index\<rparr>)
         (enumerate 0 evaluations)"

definition assignRankingsRefs :: "WithComposite list \<Rightarrow> ref list \<Rightarrow> store \<Rightarrow> store" where
  "assignRankingsRefs ordered evaluations h =
     fold (\<lambda>(index, w) h'.
             h'(evaluations ! originalIndex w :=
                  (h' (evaluations ! originalIndex w))\<lparr>overallRanking := index + 1\<rparr>))
          (enumerate 0 ordered) h"

definition rankEvaluationsRefs :: "store \<Rightarrow> ref list \<Rightarrow> store \<times> ref list" where
  "rankEvaluationsRefs h evaluations =
     (if length evaluations = 0 then (h, evaluations)
      else (assignRankingsRefs (arraySort byCompositeDesc (withCompositeRefs h evaluations))
              evaluations h,
            evaluations))"

section \<open>Judge Client: evaluateDentalNotes (lib/openai.ts)\<close>

text \<open>
  What the judge sends is untyped JSON, so this component is modelled over JSON values. The
  outcome of the two library calls is the input: the completion request either rejects
  (\<open>ApiFailure\<close> with the message the \<open>catch\<close> block extracts), or yields falsy content
  (\<open>NoContent\<close>), or content on which \<open>JSON.parse\<close> throws (\<open>MalformedJson\<close> with its
  message), or content that parses (\<open>ParsedJson\<close>). A parsed object is given by the list
  of its own properties, each key once.
\<close>

datatype json =
  JNull | JBool bool | JNum rat | JStr string | JArr "json list" | JObj "(string \<times> json) list"

datatype jsval = Undefined | Value json

datatype js_error = JsError string

datatype JudgeReply = ApiFailure string | NoContent | MalformedJson string | ParsedJson json

text \<open>Reading a property of a non-null parsed value. None of the property names read
  by the client exists on a prototype, so anything but an own property is \<open>undefined\<close>.\<close>

fun getField :: "json \<Rightarrow> string \<Rightarrow> jsval" where
  "getField (JObj props) k = (case map_of props k of None \<Rightarrow> Undefined | Some v \<Rightarrow> Value v)"
| "getField other k = Undefined"

record RawScoreBlock =
  rawScore :: jsval
  rawExplanation :: jsval
  rawExamples :: jsval

record RawFalsehood =
  rawId :: "nat \<times> nat"
  rawDescription :: jsval
  rawSeverity :: jsval
  rawLocation :: jsval
  rawCorrection :: jsval

record RawEvaluationResults =
  rawDetailScore :: RawScoreBlock
  rawTruthfulnessScore :: RawScoreBlock
  rawFalsehoods :: "RawFalsehood list"
  rawSummary :: jsval
  rawOverallRanking :: nat

text \<open>\<open>parsed.falsehoods.map((f, index) => ...)\<close>: reading a property of a \<open>null\<close>
  element throws a TypeError (messages in the wording of V8, without its quotation marks).
  The id is \<open>falsehood_<Date.now()>_<index>\<close>, kept as the pair of clock reading and index.\<close>

fun mapFalsehoods :: "(nat \<Rightarrow> nat) \<Rightarrow> nat \<Rightarrow> json list \<Rightarrow> string + RawFalsehood list" where
  "mapFalsehoods clock index [] = Inr []"
| "mapFalsehoods clock index (f # fs) =
     (if f = JNull then Inl ''Cannot read properties of null (reading description)''
      else case mapFalsehoods clock (Suc index) fs of
             Inl m \<Rightarrow> Inl m
           | Inr rest \<Rightarrow>
               Inr (\<lparr>rawId = (clock index, index),
                     rawDescription = getField f ''description'',
                     rawSeverity = getField f ''severity'',
                     rawLocation = getField f ''location'',
                     rawCorrection = getField f ''correction''\<rparr> # rest))"

definition convertParsed :: "(nat \<Rightarrow> nat) \<Rightarrow> json \<Rightarrow> string + RawEvaluationResults" where
  "convertParsed clock parsed =
     (if parsed = JNull then Inl ''Cannot read properties of null (reading detailScore)''
      else case getField parsed ''falsehoods'' of
             Undefined \<Rightarrow> Inl ''Cannot read properties of undefined (reading map)''
           | Value JNull \<Rightarrow> Inl ''Cannot read properties of null (reading map)''
           | Value (JArr fs) \<Rightarrow>
               (case mapFalsehoods clock 0 fs of
                  Inl m \<Rightarrow> Inl m
                | Inr fhs \<Rightarrow>
                    Inr \<lparr>rawDetailScore =
                           \<lparr>rawScore = getField parsed ''detailScore'',
                            rawExplanation = getField parsed ''detailExplanation'',
                            rawExamples = getField parsed ''detailExamples''\<rparr>,
                         rawTruthfulnessScore =
                           \<lparr>rawScore = getField parsed ''truthfulnessScore'',
                            rawExplanation = getField parsed ''truthfulnessExplanation'',
                            rawExamples = getField parsed ''truthfulnessExamples''\<rparr>,
                         rawFalsehoods = fhs,
                         rawSummary = getField parsed ''summary'',
                         rawOverallRanking = 0\<rparr>)
           | Value other \<Rightarrow> Inl ''parsed.falsehoods.map is not a function'')"

text \<open>The body of the \<open>try\<close> block, then the \<open>catch\<close> block, which rethrows every failure
  as a plain \<open>Error\<close> whose message is prefixed with \<open>OpenAI-eval-error: \<close>.\<close>

definition tryEvaluate :: "(nat \<Rightarrow> nat) \<Rightarrow> JudgeReply \<Rightarrow> string + RawEvaluationResults" where
  "tryEvaluate clock reply =
     (case reply of
        ApiFailure m \<Rightarrow> Inl m
      | NoContent \<Rightarrow> Inl ''No response from OpenAI''
      | MalformedJson m \<Rightarrow> Inl m
      | ParsedJson parsed \<Rightarrow> convertParsed clock parsed)"

definition evaluateDentalNotes ::
  "(nat \<Rightarrow> nat) \<Rightarrow> JudgeReply \<Rightarrow> js_error + RawEvaluationResults" where
  "evaluateDentalNotes clock reply =
     (case tryEvaluate clock reply of
        Inl message \<Rightarrow> Inl (JsError (''OpenAI-eval-error: '' @ message))
      | Inr r \<Rightarrow> Inr r)"

section \<open>Batch Orchestrator (app/api/evaluate/route.ts)\<close>

record NoteFile =
  name :: string
  content :: string

text \<open>\<open>transcript: { content: string } | null\<close> is the optional transcript text.\<close>

record TranscriptGroup =
  transcript :: "string option"
  groupNotes :: "NoteFile list"

text \<open>\<open>batchData.structure\<close> is given by its entry list, in the order in which
  \<open>Object.entries\<close> and \<open>Object.values\<close> enumerate it.\<close>

type_synonym BatchStructure = "(string \<times> TranscriptGroup) list"

record OpenAIEvaluationPrompt =
  promptTranscript :: string
  promptNotes :: string
  promptNoteFileName :: string

record Evaluation =
  evalId :: string
  transcriptName :: string
  noteFileName :: string
  results :: EvaluationResults
  timestamp :: nat
  noteContent :: "string option"
  transcriptContent :: "string option"

record Task =
  taskTranscriptName :: string
  taskTranscriptContent :: string
  noteFile :: NoteFile

text \<open>
  The surroundings of a run: the outcome of the \<open>n\<close>-th call of the Judge Client (counted
  from 0) on a given prompt, with typed records for the successes, and the identifier and
  the clock reading used for the \<open>n\<close>-th evaluation object.
\<close>

record Env =
  judge :: "nat \<Rightarrow> OpenAIEvaluationPrompt \<Rightarrow> js_error + EvaluationResults"
  newId :: "nat \<Rightarrow> string"
  now :: "nat \<Rightarrow> nat"

text \<open>What a run does besides computing: the judge calls it makes and the delays it awaits.\<close>

datatype Event = JudgeCall OpenAIEvaluationPrompt | Delay nat

record Exec =
  allEvaluations :: "Evaluation list"
  calls :: nat
  events :: "Event list"

text \<open>The prompts of the judge calls of a run, in the order of the calls.\<close>

fun judgeCalls :: "Event list \<Rightarrow> OpenAIEvaluationPrompt list" where
  "judgeCalls [] = []"
| "judgeCalls (JudgeCall p # rest) = p # judgeCalls rest"
| "judgeCalls (Delay ms # rest) = judgeCalls rest"

definition initialExec :: Exec where
  "initialExec = \<lparr>allEvaluations = [], calls = 0, events = []\<rparr>"

definition promptOf :: "Task \<Rightarrow> OpenAIEvaluationPrompt" where
  "promptOf task =
     \<lparr>promptTranscript = taskTranscriptContent task,
      promptNotes = content (noteFile task),
      promptNoteFileName = name (noteFile task)\<rparr>"

text \<open>The evaluation object built for the \<open>n\<close>-th call when the judge returns \<open>res\<close>.\<close>

definition newEvaluation :: "Env \<Rightarrow> nat \<Rightarrow> Task \<Rightarrow> EvaluationResults \<Rightarrow> Evaluation" where
  "newEvaluation env n task res =
     \<lparr>evalId = newId env n,
      transcriptName = taskTranscriptName task,
      noteFileName = name (noteFile task),
      results = res,
      timestamp = now env n,
      noteContent = Some (content (noteFile task)),
      transcriptContent = Some (taskTranscriptContent task)\<rparr>"

text \<open>The first half of the \<open>try\<close> body shared by the three loops: the call of the judge
  and, if it returns, the construction of the evaluation object.\<close>

definition callJudge :: "Env \<Rightarrow> Task \<Rightarrow> Exec \<Rightarrow> (js_error + Evaluation) \<times> Exec" where
  "callJudge env task st =
     (let n = calls st;
          st1 = st\<lparr>calls := n + 1, events := events st @ [JudgeCall (promptOf task)]\<rparr>
      in case judge env n (promptOf task) of
           Inl err \<Rightarrow> (Inl err, st1)
         | Inr res \<Rightarrow> (Inr (newEvaluation env n task res), st1))"

text \<open>The second half: \<open>allEvaluations.push(evaluation)\<close> and the awaited delay.\<close>

definition pushEvaluation :: "nat \<Rightarrow> Evaluation \<Rightarrow> Exec \<Rightarrow> Exec" where
  "pushEvaluation ms evaluation st =
     st\<lparr>allEvaluations := allEvaluations st @ [evaluation], events := events st @ [Delay ms]\<rparr>"

text \<open>\<open>try { ... } catch (error) { continue; }\<close>: a failed call leaves no record.\<close>

definition runTask :: "Env \<Rightarrow> nat \<Rightarrow> Task \<Rightarrow> Exec \<Rightarrow> Exec" where
  "runTask env ms task st =
     (case callJudge env task st of
        (Inl err, st1) \<Rightarrow> st1
      | (Inr evaluation, st1) \<Rightarrow> pushEvaluation ms evaluation st1)"

subsection \<open>Ranking within each transcript group\<close>

text \<open>
  \<open>evaluationsByTranscript\<close> is a \<open>Map\<close>: keys in insertion order, each with the array of
  the evaluation objects pushed under it. The objects are the ones of \<open>allEvaluations\<close>, so
  a group is kept as the list of their positions there. The \<open>results\<close> of different
  evaluations are different objects (one object literal per judge call), so the ranks
  written by \<open>rankEvaluations\<close> are those of its value-level model.
\<close>

text \<open>\<open>if (!m.has(key)) m.set(key, []); m.get(key).push(x)\<close> on a dictionary that keeps
  its keys in insertion order.\<close>

fun pushUnder :: "string \<Rightarrow> 'a \<Rightarrow> (string \<times> 'a list) list \<Rightarrow> (string \<times> 'a list) list" where
  "pushUnder key x [] = [(key, [x])]"
| "pushUnder key x ((k, xs) # rest) =
     (if k = key then (k, xs @ [x]) # rest else (k, xs) # pushUnder key x rest)"


definition groupByTranscript :: "Evaluation list \<Rightarrow> (string \<times> nat list) list" where
  "groupByTranscript evs =
     fold (\<lambda>(i, evaluation). pushUnder (transcriptName evaluation) i) (enumerate 0 evs) []"

definition rankGroup :: "nat list \<Rightarrow> Evaluation list \<Rightarrow> Evaluation list" where
  "rankGroup members evs =
     (let rankedResults = rankEvaluations (map (\<lambda>i. results (evs ! i)) members)
      in fold (\<lambda>(index, i) evs'. evs'[i := (evs' ! i)\<lparr>results := rankedResults ! index\<rparr>])
              (enumerate 0 members) evs)"

definition applyRankings :: "Evaluation list \<Rightarrow> Evaluation list" where
  "applyRankings evs = fold (\<lambda>(key, members). rankGroup members) (groupByTranscript evs) evs"

definition finish :: "Exec \<Rightarrow> Evaluation list \<times> Exec" where
  "finish st = (applyRankings (allEvaluations st), st)"

subsection \<open>evaluateBatchInMemory\<close>

definition taskFor :: "string \<Rightarrow> string \<Rightarrow> NoteFile \<Rightarrow> Task" where
  "taskFor tn tc nf = \<lparr>taskTranscriptName = tn, taskTranscriptContent = tc, noteFile = nf\<rparr>"

fun inMemoryLoop :: "Env \<Rightarrow> BatchStructure \<Rightarrow> Exec \<Rightarrow> Exec" where
  "inMemoryLoop env [] st = st"
| "inMemoryLoop env ((tn, grp) # rest) st =
     (case transcript grp of
        None \<Rightarrow> inMemoryLoop env rest st
      | Some tc \<Rightarrow>
          inMemoryLoop env rest (fold (\<lambda>nf. runTask env 1000 (taskFor tn tc nf)) (groupNotes grp) st))"

definition evaluateBatchInMemory :: "Env \<Rightarrow> BatchStructure \<Rightarrow> Evaluation list \<times> Exec" where
  "evaluateBatchInMemory env batch = finish (inMemoryLoop env batch initialExec)"

subsection \<open>evaluateBatchInChunks\<close>

fun collectTasks :: "BatchStructure \<Rightarrow> Task list" where
  "collectTasks [] = []"
| "collectTasks ((tn, grp) # rest) =
     (case transcript grp of
        None \<Rightarrow> collectTasks rest
      | Some tc \<Rightarrow> map (taskFor tn tc) (groupNotes grp) @ collectTasks rest)"

text \<open>\<open>allTasks.slice(i, i + chunkSize)\<close> for \<open>0 \<le> i\<close>.\<close>

definition slice :: "'a list \<Rightarrow> nat \<Rightarrow> nat \<Rightarrow> 'a list" where
  "slice xs start stop = take (stop - start) (drop start xs)"

text \<open>\<open>for (let i = 0; i < allTasks.length; i += chunkSize)\<close>. With \<open>chunkSize = 0\<close> and a
  task left the loop never ends; not returning is the value \<open>None\<close>.\<close>

partial_function (option) chunkLoop ::
  "Env \<Rightarrow> nat \<Rightarrow> Task list \<Rightarrow> nat \<Rightarrow> Exec \<Rightarrow> Exec option" where
  "chunkLoop env chunkSize allTasks i st =
     (if i < length allTasks
      then chunkLoop env chunkSize allTasks (i + chunkSize)
             (fold (runTask env 100) (slice allTasks i (i + chunkSize)) st)
      else Some st)"

definition evaluateBatchInChunks ::
  "Env \<Rightarrow> nat \<Rightarrow> BatchStructure \<Rightarrow> (Evaluation list \<times> Exec) option" where
  "evaluateBatchInChunks env chunkSize batch =
     map_option finish (chunkLoop env chunkSize (collectTasks batch) 0 initialExec)"

subsection \<open>evaluatePartialBatch\<close>

text \<open>\<open>filesProcessed\<close> is incremented after a successful push only.\<close>

fun partialNotes ::
  "Env \<Rightarrow> nat \<Rightarrow> string \<Rightarrow> string \<Rightarrow> NoteFile list \<Rightarrow> nat \<times> Exec \<Rightarrow> nat \<times> Exec" where
  "partialNotes env maxFiles tn tc [] s = s"
| "partialNotes env maxFiles tn tc (nf # rest) (filesProcessed, st) =
     (if filesProcessed \<ge> maxFiles then (filesProcessed, st)
      else case callJudge env (taskFor tn tc nf) st of
             (Inl err, st1) \<Rightarrow> partialNotes env maxFiles tn tc rest (filesProcessed, st1)
           | (Inr evaluation, st1) \<Rightarrow>
               partialNotes env maxFiles tn tc rest
                 (filesProcessed + 1, pushEvaluation 100 evaluation st1))"

fun partialLoop :: "Env \<Rightarrow> nat \<Rightarrow> BatchStructure \<Rightarrow> nat \<times> Exec \<Rightarrow> nat \<times> Exec" where
  "partialLoop env maxFiles [] s = s"
| "partialLoop env maxFiles ((tn, grp) # rest) (filesProcessed, st) =
     (if filesProcessed \<ge> maxFiles then (filesProcessed, st)
      else case transcript grp of
             None \<Rightarrow> partialLoop env maxFiles rest (filesProcessed, st)
           | Some tc \<Rightarrow>
               partialLoop env maxFiles rest
                 (partialNotes env maxFiles tn tc (groupNotes grp) (filesProcessed, st)))"

definition evaluatePartialBatch ::
  "Env \<Rightarrow> BatchStructure \<Rightarrow> nat \<Rightarrow> Evaluation list \<times> Exec" where
  "evaluatePartialBatch env batch maxFiles =
     finish (snd (partialLoop env maxFiles batch (0, initialExec)))"

subsection \<open>POST: choice of the strategy\<close>

record BatchResponse =
  success :: bool
  evaluations :: "Evaluation list"
  isPartial :: "bool option"
  totalFiles :: "nat option"
  processedFiles :: "nat option"

text \<open>
  The batch branch of \<open>POST\<close>. None of the three executors throws on a batch of the
  declared type (every judge failure is caught per task), so the surrounding \<open>catch\<close> that
  answers with status 500 is never entered and the response is always one of the three
  successes. The result is \<open>None\<close> only if the chosen executor does not return.

  \<open>totalFiles\<close> is \<open>Object.values(structure).reduce((sum, group) => sum + group.notes.length, 0)\<close>.
\<close>

definition countFiles :: "BatchStructure \<Rightarrow> nat" where
  "countFiles batch = foldl (\<lambda>sum (tn, grp). sum + length (groupNotes grp)) 0 batch"

datatype Strategy = PartialCap nat | Chunked nat | Direct

definition chooseStrategy :: "nat \<Rightarrow> Strategy" where
  "chooseStrategy n =
     (if n > 100 then PartialCap 50 else if n > 5 then Chunked 5 else Direct)"

definition POST_batch :: "Env \<Rightarrow> BatchStructure \<Rightarrow> (BatchResponse \<times> Exec) option" where
  "POST_batch env batch =
     (let totalCount = countFiles batch
      in case chooseStrategy totalCount of
           PartialCap maxFiles \<Rightarrow>
             (case evaluatePartialBatch env batch maxFiles of
                (partialResults, st) \<Rightarrow>
                  Some (\<lparr>success = True, evaluations = partialResults, isPartial = Some True,
                          totalFiles = Some totalCount,
                          processedFiles = Some (length partialResults)\<rparr>, st))
         | Chunked chunkSize \<Rightarrow>
             map_option
               (\<lambda>(batchResults, st).
                  (\<lparr>success = True, evaluations = batchResults, isPartial = None,
                    totalFiles = None, processedFiles = None\<rparr>, st))
               (evaluateBatchInChunks env chunkSize batch)
         | Direct \<Rightarrow>
             (case evaluateBatchInMemory env batch of
                (batchResults, st) \<Rightarrow>
                  Some (\<lparr>success = True, evaluations = batchResults, isPartial = None,
                          totalFiles = None, processedFiles = None\<rparr>, st)))"

section \<open>Cross-Group Summarizer: the BatchSummary component\<close>

subsection \<open>Grouping by note file name in a plain object\<close>

text \<open>
  \<open>noteTypeGroups\<close> is an object literal used as a dictionary. Two properties of
  JavaScript objects are visible in the result. First, a file name that names a property of
  \<open>Object.prototype\<close> finds that inherited value under \<open>acc[filename]\<close>, no array is
  created, and \<open>push\<close> on it throws a TypeError. Second, \<open>Object.entries\<close> lists the keys
  that are array indices (canonical decimal numerals below \<open>2 ^ 32 - 1\<close>) first, in
  ascending numeric order, and the other keys after them in insertion order.
\<close>

definition objectPrototypeKeys :: "string list" where
  "objectPrototypeKeys =
     [''constructor'', ''__defineGetter__'', ''__defineSetter__'', ''hasOwnProperty'',
      ''__lookupGetter__'', ''__lookupSetter__'', ''isPrototypeOf'', ''propertyIsEnumerable'',
      ''toString'', ''valueOf'', ''__proto__'', ''toLocaleString'']"

definition isDigit :: "char \<Rightarrow> bool" where
  "isDigit c = (48 \<le> (of_char c :: int) \<and> (of_char c :: int) \<le> 57)"

definition digitsValue :: "string \<Rightarrow> int" where
  "digitsValue s = foldl (\<lambda>n c. 10 * n + (of_char c - 48)) 0 s"

definition isArrayIndex :: "string \<Rightarrow> bool" where
  "isArrayIndex s =
     (s \<noteq> [] \<and> list_all isDigit s \<and> (length s = 1 \<or> hd s \<noteq> CHR ''0'')
      \<and> digitsValue s < 2 ^ 32 - 1)"

definition objectEntries :: "(string \<times> 'a) list \<Rightarrow> (string \<times> 'a) list" where
  "objectEntries props =
     sort_key (\<lambda>(k, v). digitsValue k) (filter (\<lambda>(k, v). isArrayIndex k) props)
     @ filter (\<lambda>(k, v). \<not> isArrayIndex k) props"

fun groupByFilename ::
  "Evaluation list \<Rightarrow> (string \<times> Evaluation list) list
     \<Rightarrow> js_error + (string \<times> Evaluation list) list" where
  "groupByFilename [] acc = Inr acc"
| "groupByFilename (evaluation # rest) acc =
     (if noteFileName evaluation \<in> set objectPrototypeKeys
      then Inl (JsError ''acc[filename].push is not a function'')
      else groupByFilename rest (pushUnder (noteFileName evaluation) evaluation acc))"

subsection \<open>Statistics per note type\<close>

record NoteTypeStats =
  filename :: string
  statEvaluations :: "Evaluation list"
  avgDetailScore :: rat
  avgTruthfulnessScore :: rat
  avgCompositeScore :: rat
  totalFalsehoods :: nat
  transcriptCount :: nat

text \<open>
  Averages are JavaScript doubles in the source and exact rationals here; the two agree on
  every value used below (small integers, halves, and quotients far from a rounding
  boundary). \<open>roundTenth\<close> is \<open>Math.round(x * 10) / 10\<close>; \<open>Math.round\<close> rounds halves
  upwards.
\<close>

definition roundTenth :: "rat \<Rightarrow> rat" where
  "roundTenth x = of_int \<lfloor>x * 10 + 1 / 2\<rfloor> / 10"

text \<open>The three local averages of the \<open>map\<close> callback, before rounding.\<close>

definition meanDetail :: "Evaluation list \<Rightarrow> rat" where
  "meanDetail evals =
     of_int (foldl (\<lambda>sum e. sum + score (detailScore (results e))) 0 evals)
       / of_nat (length evals)"

definition meanTruthfulness :: "Evaluation list \<Rightarrow> rat" where
  "meanTruthfulness evals =
     of_int (foldl (\<lambda>sum e. sum + score (truthfulnessScore (results e))) 0 evals)
       / of_nat (length evals)"

definition meanComposite :: "Evaluation list \<Rightarrow> rat" where
  "meanComposite evals = (meanDetail evals + meanTruthfulness evals) / 2"

definition statsOf :: "string \<times> Evaluation list \<Rightarrow> NoteTypeStats" where
  "statsOf entry =
     (case entry of (fname, evals) \<Rightarrow>
        \<lparr>filename = fname,
         statEvaluations = evals,
         avgDetailScore = roundTenth (meanDetail evals),
         avgTruthfulnessScore = roundTenth (meanTruthfulness evals),
         avgCompositeScore = roundTenth (meanComposite evals),
         totalFalsehoods = foldl (\<lambda>sum e. sum + length (falsehoods (results e))) 0 evals,
         transcriptCount = length evals\<rparr>)"

definition noteTypeStats :: "Evaluation list \<Rightarrow> js_error + NoteTypeStats list" where
  "noteTypeStats evs =
     (case groupByFilename evs [] of
        Inl err \<Rightarrow> Inl err
      | Inr groups \<Rightarrow> Inr (map statsOf (objectEntries groups)))"

definition byAvgCompositeDesc :: "NoteTypeStats \<Rightarrow> NoteTypeStats \<Rightarrow> rat" where
  "byAvgCompositeDesc a b = avgCompositeScore b - avgCompositeScore a"

text \<open>\<open>rankedNoteTypes\<close> as first computed: a sorted copy of \<open>noteTypeStats\<close>.\<close>

definition rankNoteTypes :: "NoteTypeStats list \<Rightarrow> NoteTypeStats list" where
  "rankNoteTypes stats = arraySort byAvgCompositeDesc stats"

subsection \<open>generateCommentary\<close>

text \<open>A commentary sentence is kept as its template and the values inserted into it.\<close>

datatype Comment =
    SignificantGap string string rat
  | ModeratelyBetter string rat
  | QuiteConsistent rat
  | ClearWinner string
  | DifferentStrengths string string
  | ExceptionalConsistency string
  | SignificantVariation string
  | PerfectAccuracy string
  | RequiresAttention string rat
  | AllHighQuality
  | BelowThreshold "string list"

record Consistency =
  consistencyFilename :: string
  variance :: rat
  scores :: "rat list"

definition consistencyOf :: "NoteTypeStats \<Rightarrow> Consistency" where
  "consistencyOf noteType =
     (let scs = map (\<lambda>e. compositeOf (results e)) (statEvaluations noteType);
          avg = foldl (\<lambda>sum s. sum + s) 0 scs / of_nat (length scs);
          var = foldl (\<lambda>sum s. sum + (s - avg) ^ 2) 0 scs / of_nat (length scs)
      in \<lparr>consistencyFilename = filename noteType, variance = var, scores = scs\<rparr>)"

record FalsehoodRate =
  rateFilename :: string
  avgFalsehoods :: rat

definition falsehoodRateOf :: "NoteTypeStats \<Rightarrow> FalsehoodRate" where
  "falsehoodRateOf nt =
     \<lparr>rateFilename = filename nt,
      avgFalsehoods = of_nat (totalFalsehoods nt) / of_nat (transcriptCount nt)\<rparr>"

text \<open>
  The closure works on the array \<open>rankedNoteTypes\<close> of the component and sorts it in
  place twice, so it is modelled as a function from the array to the commentary and the
  array as it leaves it. \<open>best\<close> and \<open>worst\<close> are read before the first of these sorts.
  Every \<open>hd\<close> is taken of a list as long as the non-empty \<open>rankedNoteTypes\<close>.
\<close>

definition generateCommentary :: "NoteTypeStats list \<Rightarrow> Comment list \<times> NoteTypeStats list" where
  "generateCommentary rankedNoteTypes =
     (if length rankedNoteTypes = 0 then ([], rankedNoteTypes)
      else
        let best = hd rankedNoteTypes;
            worst = last rankedNoteTypes;
            scoreDiff = avgCompositeScore best - avgCompositeScore worst;
            performance =
              (if scoreDiff > 2 then [SignificantGap (filename best) (filename worst) scoreDiff]
               else if scoreDiff > 1 then [ModeratelyBetter (filename best) scoreDiff]
               else [QuiteConsistent scoreDiff]);
            byDetail = arraySort (\<lambda>a b. avgDetailScore b - avgDetailScore a) rankedNoteTypes;
            mostDetailed = hd byDetail;
            byTruth = arraySort (\<lambda>a b. avgTruthfulnessScore b - avgTruthfulnessScore a) byDetail;
            mostTruthful = hd byTruth;
            strengths =
              (if filename mostDetailed = filename mostTruthful
                  \<and> filename mostDetailed = filename best
               then [ClearWinner (filename best)]
               else if filename mostDetailed \<noteq> filename mostTruthful
               then [DifferentStrengths (filename mostDetailed) (filename mostTruthful)]
               else []);
            consistencyScores = map consistencyOf byTruth;
            ascending = arraySort (\<lambda>a b. variance a - variance b) consistencyScores;
            mostConsistent = hd ascending;
            leastConsistent = hd (arraySort (\<lambda>a b. variance b - variance a) ascending);
            consistency =
              (if variance mostConsistent < 1 / 2
               then [ExceptionalConsistency (consistencyFilename mostConsistent)]
               else if variance leastConsistent > 2
               then [SignificantVariation (consistencyFilename leastConsistent)]
               else []);
            totalFalsehoodsByType = map falsehoodRateOf byTruth;
            fewest = arraySort (\<lambda>a b. avgFalsehoods a - avgFalsehoods b) totalFalsehoodsByType;
            safest = hd fewest;
            riskiest = hd (arraySort (\<lambda>a b. avgFalsehoods b - avgFalsehoods a) fewest);
            issues =
              (if avgFalsehoods safest = 0 then [PerfectAccuracy (rateFilename safest)]
               else if avgFalsehoods riskiest \<ge> 2
               then [RequiresAttention (rateFilename riskiest) (avgFalsehoods riskiest)]
               else []);
            highQuality = filter (\<lambda>nt. avgCompositeScore nt \<ge> 8) byTruth;
            lowQuality = filter (\<lambda>nt. avgCompositeScore nt < 6) byTruth;
            quality =
              (if length highQuality = length byTruth then [AllHighQuality]
               else if length lowQuality > 0 then [BelowThreshold (map filename lowQuality)]
               else [])
        in (performance @ strengths @ consistency @ issues @ quality, byTruth))"

text \<open>The most consistent note type as \<open>generateCommentary\<close> determines it.\<close>

definition mostConsistentOf :: "NoteTypeStats list \<Rightarrow> Consistency" where
  "mostConsistentOf rankedNoteTypes =
     hd (arraySort (\<lambda>a b. variance a - variance b)
           (map consistencyOf (snd (generateCommentary rankedNoteTypes))))"

subsection \<open>The component\<close>

fun uniqueInOrder :: "'a list \<Rightarrow> 'a list \<Rightarrow> 'a list" where
  "uniqueInOrder seen [] = seen"
| "uniqueInOrder seen (x # xs) = uniqueInOrder (if x \<in> set seen then seen else seen @ [x]) xs"

text \<open>
  What the component renders: the cards under \<open>Note Type Performance Rankings\<close> (the
  array \<open>rankedNoteTypes\<close> as it is when the markup is built, after \<open>generateCommentary\<close> has
  run, numbered from 1 in this order), the commentary and the transcript names. An empty
  input renders nothing.
\<close>

record SummaryView =
  rankingCards :: "NoteTypeStats list"
  commentary :: "Comment list"
  transcriptNames :: "string list"

definition BatchSummary :: "Evaluation list \<Rightarrow> js_error + SummaryView option" where
  "BatchSummary evs =
     (if length evs = 0 then Inr None
      else case noteTypeStats evs of
             Inl err \<Rightarrow> Inl err
           | Inr stats \<Rightarrow>
               (case generateCommentary (rankNoteTypes stats) of
                  (comments, shown) \<Rightarrow>
                    Inr (Some \<lparr>rankingCards = shown, commentary = comments,
                               transcriptNames = uniqueInOrder [] (map transcriptName evs)\<rparr>)))"

section \<open>Concrete inputs used in the checks below\<close>

definition resultsWith :: "int \<Rightarrow> int \<Rightarrow> EvaluationResults" where
  "resultsWith d t =
     \<lparr>detailScore = \<lparr>score = d, explanation = [], examples = []\<rparr>,
      truthfulnessScore = \<lparr>score = t, explanation = [], examples = []\<rparr>,
      falsehoods = [], summary = [], overallRanking = 0\<rparr>"

text \<open>The single-group scenario of the specification: scores (9,9), (7,8), (5,6).\<close>

definition scenarioGroup :: "EvaluationResults list" where
  "scenarioGroup = [resultsWith 9 9, resultsWith 7 8, resultsWith 5 6]"

text \<open>A store with a weaker record at reference 0 and a stronger one elsewhere.\<close>

definition twoRecordStore :: store where
  "twoRecordStore r = (if r = 0 then resultsWith 5 6 else resultsWith 9 9)"

text \<open>A clock that always reads 0, and a parsed reply that is a JSON object but has none
  of the fields of the response schema except an empty \<open>falsehoods\<close> array.\<close>

definition fixedClock :: "nat \<Rightarrow> nat" where
  "fixedClock i = 0"

definition offSchemaReply :: json where
  "offSchemaReply = JObj [(''score'', JNum 11), (''falsehoods'', JArr [])]"

text \<open>The two-group scenario of the specification: \<open>notes-gpt4o\<close> with composite scores
  9 and 7, \<open>notes-claude\<close> with 8 and 8.\<close>

definition evaluationWith :: "string \<Rightarrow> string \<Rightarrow> int \<Rightarrow> int \<Rightarrow> Evaluation" where
  "evaluationWith tn nf d t =
     \<lparr>evalId = [], transcriptName = tn, noteFileName = nf, results = resultsWith d t,
      timestamp = 0, noteContent = None, transcriptContent = None\<rparr>"

definition twoGroupScenario :: "Evaluation list" where
  "twoGroupScenario =
     [evaluationWith ''transcript1'' ''notes-gpt4o'' 9 9,
      evaluationWith ''transcript1'' ''notes-claude'' 8 8,
      evaluationWith ''transcript2'' ''notes-gpt4o'' 7 7,
      evaluationWith ''transcript2'' ''notes-claude'' 8 8]"


definition displayScenario :: "Evaluation list" where
  "displayScenario =
     [evaluationWith ''transcript1'' ''notes-a'' 10 6,
      evaluationWith ''transcript1'' ''notes-b'' 7 8]"

subsection \<open>Notions used in the statements\<close>

text \<open>The evaluation the \<open>n\<close>-th judge call leaves behind for a task, if the call succeeds.\<close>

definition attempt :: "Env \<Rightarrow> nat \<times> Task \<Rightarrow> Evaluation option" where
  "attempt env p =
     (case p of (n, task) \<Rightarrow>
        (case judge env n (promptOf task) of
           Inl err \<Rightarrow> None
         | Inr res \<Rightarrow> Some (newEvaluation env n task res)))"

text \<open>Batches and surroundings: a judge that always succeeds, one whose first call fails,
  and batches with and without reference documents, whose note files are named
  \<open>n.txt\<close>, \<open>nn.txt\<close>, \<open>nnn.txt\<close> and so on.\<close>

definition noteNamed :: "nat \<Rightarrow> NoteFile" where
  "noteNamed i = \<lparr>name = replicate (Suc i) (CHR ''n'') @ ''.txt'', content = ''Patient seen.''\<rparr>"

definition numberedNotes :: "nat \<Rightarrow> NoteFile list" where
  "numberedNotes k = map noteNamed [0..<k]"

definition okEnv :: Env where
  "okEnv = \<lparr>judge = (\<lambda>n p. Inr (resultsWith 8 8)), newId = (\<lambda>n. ''eval''), now = (\<lambda>n. 0)\<rparr>"

definition mixedBatch :: BatchStructure where
  "mixedBatch =
     [(''transcript1'', \<lparr>transcript = Some ''Visit.'', groupNotes = numberedNotes 1\<rparr>),
      (''transcript2'', \<lparr>transcript = None, groupNotes = numberedNotes 5\<rparr>)]"


definition smallBatch :: BatchStructure where
  "smallBatch =
     [(''transcript1'', \<lparr>transcript = Some ''Visit.'', groupNotes = numberedNotes 2\<rparr>)]"

definition sixTaskBatch :: BatchStructure where
  "sixTaskBatch =
     [(''transcript1'', \<lparr>transcript = Some ''Visit.'', groupNotes = numberedNotes 4\<rparr>),
      (''transcript2'', \<lparr>transcript = Some ''Recall.'', groupNotes = numberedNotes 2\<rparr>)]"

definition bigBatch :: BatchStructure where
  "bigBatch =
     [(''transcript1'', \<lparr>transcript = Some ''Visit.'', groupNotes = numberedNotes 101\<rparr>)]"

definition firstCallFailsEnv :: Env where
  "firstCallFailsEnv =
     \<lparr>judge = (\<lambda>n p. if n = 0 then Inl (JsError ''OpenAI-eval-error: 429'')
                      else Inr (resultsWith 8 8)),
      newId = (\<lambda>n. ''eval''), now = (\<lambda>n. 0)\<rparr>"

section \<open>Properties of the sort\<close>

lemma set_insertBy: "set (insertBy cmp x ys) = insert x (set ys)"
  by (induction ys) auto

lemma mset_insertBy: "mset (insertBy cmp x ys) = add_mset x (mset ys)"
  by (induction ys) auto

lemma mset_arraySort: "mset (arraySort cmp xs) = mset xs"
  unfolding arraySort_def by (induction xs) (simp_all add: mset_insertBy)

lemma set_arraySort: "set (arraySort cmp xs) = set xs"
  using mset_arraySort [of cmp xs] by (metis set_mset_mset)

lemma length_arraySort: "length (arraySort cmp xs) = length xs"
  using mset_arraySort [of cmp xs] by (metis size_mset)

subsection \<open>Stable descending order\<close>

lemma insertBy_desc_sorted:
  assumes "sorted_wrt (\<lambda>a b. f b < f a \<or> (f a = f b \<and> pos a < pos b)) ys"
      and "\<forall>y\<in>set ys. (pos x :: nat) < pos y"
  shows "sorted_wrt (\<lambda>a b. f b < f a \<or> (f a = f b \<and> pos a < pos b))
           (insertBy (\<lambda>a b. f b - f a) x ys)"
  using assms
proof (induction ys)
  case Nil
  then show ?case by simp
next
  case (Cons y ys)
  show ?case
  proof (cases "f y - f x \<le> 0")
    case True
    have "\<forall>z\<in>set ys. f z < f x \<or> (f x = f z \<and> pos x < pos z)"
    proof
      fix z assume z: "z \<in> set ys"
      with Cons.prems have "f z < f y \<or> (f y = f z \<and> pos y < pos z)" by auto
      moreover from z Cons.prems have "pos x < pos z" by auto
      ultimately show "f z < f x \<or> (f x = f z \<and> pos x < pos z)" using True by auto
    qed
    with True Cons.prems show ?thesis by auto
  next
    case False
    with Cons show ?thesis by (auto simp: set_insertBy)
  qed
qed

lemma arraySort_desc_sorted:
  assumes "sorted_wrt (\<lambda>a b. (pos a :: nat) < pos b) xs"
  shows "sorted_wrt (\<lambda>a b. f b < f a \<or> (f a = f b \<and> pos a < pos b))
           (arraySort (\<lambda>a b. f b - f a) xs)"
  using assms
proof (induction xs)
  case Nil
  then show ?case by (simp add: arraySort_def)
next
  case (Cons x xs)
  have step: "arraySort (\<lambda>a b. f b - f a) (x # xs)
                = insertBy (\<lambda>a b. f b - f a) x (arraySort (\<lambda>a b. f b - f a) xs)"
    by (simp add: arraySort_def)
  from Cons.prems have "\<forall>y\<in>set (arraySort (\<lambda>a b. f b - f a) xs). pos x < pos y"
    by (simp add: set_arraySort)
  moreover from Cons have "sorted_wrt (\<lambda>a b. f b < f a \<or> (f a = f b \<and> pos a < pos b))
           (arraySort (\<lambda>a b. f b - f a) xs)" by simp
  ultimately show ?case unfolding step by (rule insertBy_desc_sorted [rotated])
qed

lemma length_withComposite: "length (withComposite evs) = length evs"
  by (simp add: withComposite_def)

lemma nth_withComposite:
  "i < length evs \<Longrightarrow> withComposite evs ! i =
     \<lparr>copyOf = evs ! i, compositeScore = compositeOf (evs ! i), originalIndex = i\<rparr>"
  by (simp add: withComposite_def nth_enumerate_eq)

lemma indices_withComposite: "map originalIndex (withComposite evs) = [0..<length evs]"
  by (rule nth_equalityI) (simp_all add: length_withComposite nth_withComposite)

lemma withComposite_member:
  assumes "w \<in> set (withComposite evs)"
  shows "originalIndex w < length evs \<and> compositeScore w = compositeOf (evs ! originalIndex w)"
proof -
  from assms obtain i where "i < length evs" "w = withComposite evs ! i"
    by (auto simp: in_set_conv_nth length_withComposite)
  then show ?thesis by (simp add: nth_withComposite)
qed

lemma withComposite_increasing:
  "sorted_wrt (\<lambda>a b. originalIndex a < originalIndex b) (withComposite evs)"
proof -
  have "sorted_wrt (<) (map originalIndex (withComposite evs))"
    by (simp add: indices_withComposite)
  then show ?thesis by (simp add: sorted_wrt_map)
qed

section \<open>Properties of the Ranker\<close>

lemma assign_fold:
  assumes "distinct (map originalIndex ws)"
      and "\<forall>w\<in>set ws. originalIndex w < length evs"
  shows "length (fold (\<lambda>(index, w) evs.
             evs[originalIndex w := (evs ! originalIndex w)\<lparr>overallRanking := index + 1\<rparr>])
          (enumerate k ws) evs) = length evs
    \<and> (\<forall>p<length ws. fold (\<lambda>(index, w) evs.
             evs[originalIndex w := (evs ! originalIndex w)\<lparr>overallRanking := index + 1\<rparr>])
          (enumerate k ws) evs ! originalIndex (ws ! p)
         = (evs ! originalIndex (ws ! p))\<lparr>overallRanking := k + p + 1\<rparr>)
    \<and> (\<forall>i. i \<notin> originalIndex ` set ws \<longrightarrow> fold (\<lambda>(index, w) evs.
             evs[originalIndex w := (evs ! originalIndex w)\<lparr>overallRanking := index + 1\<rparr>])
          (enumerate k ws) evs ! i = evs ! i)"
  using assms
proof (induction ws arbitrary: k evs)
  case Nil
  then show ?case by simp
next
  case (Cons w ws)
  let ?step = "\<lambda>(index, w) evs.
             evs[originalIndex w := (evs ! originalIndex w)\<lparr>overallRanking := index + 1\<rparr>]"
  let ?evs1 = "evs[originalIndex w := (evs ! originalIndex w)\<lparr>overallRanking := k + 1\<rparr>]"
  have unfold: "fold ?step (enumerate k (w # ws)) evs = fold ?step (enumerate (Suc k) ws) ?evs1"
    by simp
  from Cons.prems have d: "distinct (map originalIndex ws)"
    and b: "\<forall>v\<in>set ws. originalIndex v < length ?evs1"
    and fresh: "originalIndex w \<notin> originalIndex ` set ws"
    and wb: "originalIndex w < length evs" by auto
  note IH = Cons.IH [OF d b, of "Suc k"]
  from IH have len: "length (fold ?step (enumerate (Suc k) ws) ?evs1) = length evs" by simp
  from IH have at: "\<And>p. p < length ws \<Longrightarrow>
      fold ?step (enumerate (Suc k) ws) ?evs1 ! originalIndex (ws ! p)
        = (?evs1 ! originalIndex (ws ! p))\<lparr>overallRanking := Suc k + p + 1\<rparr>" by blast
  from IH have other: "\<And>i. i \<notin> originalIndex ` set ws \<Longrightarrow>
      fold ?step (enumerate (Suc k) ws) ?evs1 ! i = ?evs1 ! i" by blast
  have P2: "fold ?step (enumerate (Suc k) ws) ?evs1 ! originalIndex ((w # ws) ! p)
         = (evs ! originalIndex ((w # ws) ! p))\<lparr>overallRanking := k + p + 1\<rparr>"
    if "p < length (w # ws)" for p
  proof (cases p)
    case 0
    with other [OF fresh] wb show ?thesis by simp
  next
    case (Suc q)
    with that have q: "q < length ws" by simp
    then have "ws ! q \<in> set ws" by simp
    then have "originalIndex (ws ! q) \<noteq> originalIndex w" using fresh by (metis imageI)
    with at [OF q] Suc show ?thesis by simp
  qed
  have P3: "fold ?step (enumerate (Suc k) ws) ?evs1 ! i = evs ! i"
    if "i \<notin> originalIndex ` set (w # ws)" for i
  proof -
    from that have "i \<notin> originalIndex ` set ws" "i \<noteq> originalIndex w" by auto
    with other [of i] show ?thesis by simp
  qed
  show ?case unfolding unfold using len P2 P3 by blast
qed

lemma byCompositeDesc_eq: "byCompositeDesc = (\<lambda>a b. compositeScore b - compositeScore a)"
  by (simp add: byCompositeDesc_def fun_eq_iff)

lemma ordered_indices:
  "mset (map originalIndex (arraySort byCompositeDesc (withComposite evs))) = mset [0..<length evs]"
proof -
  have "mset (map originalIndex (arraySort byCompositeDesc (withComposite evs)))
          = image_mset originalIndex (mset (withComposite evs))"
    by (simp add: mset_arraySort)
  also have "\<dots> = mset (map originalIndex (withComposite evs))" by simp
  finally show ?thesis by (simp only: indices_withComposite)
qed

lemma ordered_distinct:
  "distinct (map originalIndex (arraySort byCompositeDesc (withComposite evs)))"
proof -
  have "distinct [0..<length evs]" by simp
  then show ?thesis using ordered_indices [of evs] by (metis mset_eq_imp_distinct_iff)
qed

lemma ordered_lex:
  "sorted_wrt (\<lambda>a b. compositeScore b < compositeScore a
                 \<or> (compositeScore a = compositeScore b \<and> originalIndex a < originalIndex b))
     (arraySort byCompositeDesc (withComposite evs))"
  unfolding byCompositeDesc_eq
  by (rule arraySort_desc_sorted [OF withComposite_increasing])

lemma ordered_member:
  assumes "p < length evs"
  shows "originalIndex (arraySort byCompositeDesc (withComposite evs) ! p) < length evs
       \<and> compositeScore (arraySort byCompositeDesc (withComposite evs) ! p)
           = compositeOf (evs ! originalIndex (arraySort byCompositeDesc (withComposite evs) ! p))"
proof -
  from assms have "arraySort byCompositeDesc (withComposite evs) ! p
      \<in> set (arraySort byCompositeDesc (withComposite evs))"
    by (simp add: length_arraySort length_withComposite)
  then have "arraySort byCompositeDesc (withComposite evs) ! p \<in> set (withComposite evs)"
    by (simp add: set_arraySort)
  then show ?thesis by (rule withComposite_member)
qed

lemma position_exists:
  assumes "i < length evs"
  shows "\<exists>p<length evs. originalIndex (arraySort byCompositeDesc (withComposite evs) ! p) = i"
proof -
  have "set (map originalIndex (arraySort byCompositeDesc (withComposite evs))) = set [0..<length evs]"
    using ordered_indices [of evs] by (metis set_mset_mset)
  with assms have "i \<in> set (map originalIndex (arraySort byCompositeDesc (withComposite evs)))"
    by simp
  then obtain p where "p < length (arraySort byCompositeDesc (withComposite evs))"
     "map originalIndex (arraySort byCompositeDesc (withComposite evs)) ! p = i"
    by (metis in_set_conv_nth length_map)
  then show ?thesis by (auto simp: length_arraySort length_withComposite)
qed

lemma rankEvaluations_length: "length (rankEvaluations evs) = length evs"
proof (cases "evs = []")
  case True
  then show ?thesis by (simp add: rankEvaluations_def)
next
  case False
  have "\<forall>w\<in>set (arraySort byCompositeDesc (withComposite evs)). originalIndex w < length evs"
    by (simp add: set_arraySort withComposite_member)
  from assign_fold [OF ordered_distinct this, of 0] False show ?thesis
    by (simp add: rankEvaluations_def assignRankings_def)
qed

lemma rankEvaluations_at:
  assumes "p < length evs"
  shows "rankEvaluations evs ! originalIndex (arraySort byCompositeDesc (withComposite evs) ! p)
       = (evs ! originalIndex (arraySort byCompositeDesc (withComposite evs) ! p))
           \<lparr>overallRanking := p + 1\<rparr>"
proof -
  from assms have ne: "evs \<noteq> []" by auto
  have b: "\<forall>w\<in>set (arraySort byCompositeDesc (withComposite evs)). originalIndex w < length evs"
    by (simp add: set_arraySort withComposite_member)
  from assms have "p < length (arraySort byCompositeDesc (withComposite evs))"
    by (simp add: length_arraySort length_withComposite)
  with assign_fold [OF ordered_distinct b, of 0] ne show ?thesis
    by (simp add: rankEvaluations_def assignRankings_def)
qed

lemma rankEvaluations_nth:
  assumes "i < length evs"
  shows "rankEvaluations evs ! i
           = (evs ! i)\<lparr>overallRanking := overallRanking (rankEvaluations evs ! i)\<rparr>"
proof -
  from position_exists [OF assms] obtain p where p: "p < length evs"
    and i: "originalIndex (arraySort byCompositeDesc (withComposite evs) ! p) = i" by blast
  from rankEvaluations_at [OF p] i show ?thesis by simp
qed

lemma rankEvaluations_composite:
  assumes "i < length evs"
  shows "compositeOf (rankEvaluations evs ! i) = compositeOf (evs ! i)"
proof -
  have "compositeOf ((evs ! i)\<lparr>overallRanking := r\<rparr>) = compositeOf (evs ! i)" for r
    by (simp add: compositeOf_def)
  with rankEvaluations_nth [OF assms] show ?thesis by metis
qed

lemma rankEvaluations_order:
  assumes "i < length evs" and "j < length evs"
  shows "overallRanking (rankEvaluations evs ! i) < overallRanking (rankEvaluations evs ! j)
     \<longleftrightarrow> (compositeOf (evs ! j) < compositeOf (evs ! i)
          \<or> (compositeOf (evs ! i) = compositeOf (evs ! j) \<and> i < j))"
proof -
  let ?srt = "arraySort byCompositeDesc (withComposite evs)"
  from position_exists [OF assms(1)] obtain p where p: "p < length evs"
    and pi: "originalIndex (?srt ! p) = i" by blast
  from position_exists [OF assms(2)] obtain q where q: "q < length evs"
    and qj: "originalIndex (?srt ! q) = j" by blast
  have len: "length ?srt = length evs" by (simp add: length_arraySort length_withComposite)
  from rankEvaluations_at [OF p] pi have ri: "overallRanking (rankEvaluations evs ! i) = p + 1"
    by simp
  from rankEvaluations_at [OF q] qj have rj: "overallRanking (rankEvaluations evs ! j) = q + 1"
    by simp
  from ordered_member [OF p] pi have ci: "compositeScore (?srt ! p) = compositeOf (evs ! i)" by simp
  from ordered_member [OF q] qj have cj: "compositeScore (?srt ! q) = compositeOf (evs ! j)" by simp
  have fwd: "compositeOf (evs ! b) < compositeOf (evs ! a)
          \<or> (compositeOf (evs ! a) = compositeOf (evs ! b) \<and> a < b)"
    if "x < y" "y < length evs" "originalIndex (?srt ! x) = a" "originalIndex (?srt ! y) = b"
    for x y a b
  proof -
    from that have x: "x < length evs" by simp
    from sorted_wrt_nth_less [OF ordered_lex [of evs] that(1)] that(2) len
    have "compositeScore (?srt ! y) < compositeScore (?srt ! x)
          \<or> (compositeScore (?srt ! x) = compositeScore (?srt ! y)
              \<and> originalIndex (?srt ! x) < originalIndex (?srt ! y))" by simp
    with ordered_member [OF x] ordered_member [OF that(2)] that(3,4) show ?thesis by simp
  qed
  show ?thesis
  proof
    assume "overallRanking (rankEvaluations evs ! i) < overallRanking (rankEvaluations evs ! j)"
    with ri rj have "p < q" by simp
    from fwd [OF this q pi qj] show "compositeOf (evs ! j) < compositeOf (evs ! i)
          \<or> (compositeOf (evs ! i) = compositeOf (evs ! j) \<and> i < j)" .
  next
    assume lex: "compositeOf (evs ! j) < compositeOf (evs ! i)
          \<or> (compositeOf (evs ! i) = compositeOf (evs ! j) \<and> i < j)"
    have "p < q"
    proof (rule ccontr)
      assume "\<not> p < q"
      then consider "p = q" | "q < p" by linarith
      then show False
      proof cases
        case 1
        with pi qj have "i = j" by simp
        with lex show False by simp
      next
        case 2
        from fwd [OF 2 p qj pi] lex show False by auto
      qed
    qed
    with ri rj show "overallRanking (rankEvaluations evs ! i)
                       < overallRanking (rankEvaluations evs ! j)" by simp
  qed
qed

lemma rankEvaluations_ranks:
  "mset (map overallRanking (rankEvaluations evs)) = mset [1..<Suc (length evs)]"
proof -
  let ?srt = "arraySort byCompositeDesc (withComposite evs)"
  let ?g = "\<lambda>i. overallRanking (rankEvaluations evs ! i)"
  have len: "length ?srt = length evs" by (simp add: length_arraySort length_withComposite)
  have "map ?g (map originalIndex ?srt) = [1..<Suc (length evs)]"
  proof (rule nth_equalityI)
    show "length (map ?g (map originalIndex ?srt)) = length [1..<Suc (length evs)]"
      by (simp add: len del: upt_Suc)
  next
    fix p assume "p < length (map ?g (map originalIndex ?srt))"
    then have p: "p < length evs" by (simp add: len)
    with rankEvaluations_at [OF p] show "map ?g (map originalIndex ?srt) ! p = [1..<Suc (length evs)] ! p"
      by (simp add: len del: upt_Suc)
  qed
  then have "mset [1..<Suc (length evs)] = image_mset ?g (mset (map originalIndex ?srt))"
    by (metis mset_map)
  also have "\<dots> = image_mset ?g (mset [0..<length evs])" by (simp only: ordered_indices)
  also have "\<dots> = mset (map ?g [0..<length (rankEvaluations evs)])"
    by (simp add: rankEvaluations_length)
  also have "map ?g [0..<length (rankEvaluations evs)] = map overallRanking (rankEvaluations evs)"
    by (rule nth_equalityI) simp_all
  finally show ?thesis by simp
qed

lemma rankEvaluations_rank_pos:
  assumes "j < length evs"
  shows "1 \<le> overallRanking (rankEvaluations evs ! j)"
proof -
  from assms have "overallRanking (rankEvaluations evs ! j)
                     \<in> set (map overallRanking (rankEvaluations evs))"
    by (simp add: rankEvaluations_length)
  also have "set (map overallRanking (rankEvaluations evs)) = set [1..<Suc (length evs)]"
    using rankEvaluations_ranks [of evs] by (metis set_mset_mset)
  finally show ?thesis by (simp del: upt_Suc)
qed

section \<open>Claims about the Ranker\<close>

text \<open>
  Claim C1. For a non-empty sequence of score records of one group, \<open>rankEvaluations\<close>
  returns the records in input order, each unchanged except for its rank; the ranks are a
  permutation of \<open>1..N\<close>; a record ranks before another exactly when its composite score
  \<open>(detail + accuracy) / 2\<close> is higher, or equal with an earlier input position; and the
  record of rank 1 has a composite score at least that of every record of the group.
\<close>

theorem rankEvaluations_dense_permutation:
  assumes "evs \<noteq> []"
  shows "length (rankEvaluations evs) = length evs
    \<and> (\<forall>i<length evs.
          rankEvaluations evs ! i
            = (evs ! i)\<lparr>overallRanking := overallRanking (rankEvaluations evs ! i)\<rparr>)
    \<and> mset (map overallRanking (rankEvaluations evs)) = mset [1..<Suc (length evs)]
    \<and> (\<forall>i<length evs. \<forall>j<length evs.
          overallRanking (rankEvaluations evs ! i)
            < overallRanking (rankEvaluations evs ! j)
          \<longleftrightarrow> (compositeOf (evs ! j) < compositeOf (evs ! i)
               \<or> (compositeOf (evs ! i) = compositeOf (evs ! j) \<and> i < j)))
    \<and> (\<forall>i<length evs. overallRanking (rankEvaluations evs ! i) = 1 \<longrightarrow>
          (\<forall>j<length evs.
             compositeOf (rankEvaluations evs ! j)
               \<le> compositeOf (rankEvaluations evs ! i)))"
proof (intro conjI allI impI)
  show "length (rankEvaluations evs) = length evs"
    by (rule rankEvaluations_length)
next
  fix i assume "i < length evs"
  then show "rankEvaluations evs ! i
            = (evs ! i)\<lparr>overallRanking := overallRanking (rankEvaluations evs ! i)\<rparr>"
    by (rule rankEvaluations_nth)
next
  show "mset (map overallRanking (rankEvaluations evs)) = mset [1..<Suc (length evs)]"
    by (rule rankEvaluations_ranks)
next
  fix i j assume "i < length evs" "j < length evs"
  then show "overallRanking (rankEvaluations evs ! i)
            < overallRanking (rankEvaluations evs ! j)
          \<longleftrightarrow> (compositeOf (evs ! j) < compositeOf (evs ! i)
               \<or> (compositeOf (evs ! i) = compositeOf (evs ! j) \<and> i < j))"
    by (rule rankEvaluations_order)
next
  fix i j
  assume i: "i < length evs" and one: "overallRanking (rankEvaluations evs ! i) = 1"
    and j: "j < length evs"
  have "\<not> overallRanking (rankEvaluations evs ! j)
            < overallRanking (rankEvaluations evs ! i)"
    using rankEvaluations_rank_pos [OF j] one by simp
  with rankEvaluations_order [OF j i]
  have "compositeOf (evs ! j) \<le> compositeOf (evs ! i)" by auto
  then show "compositeOf (rankEvaluations evs ! j)
               \<le> compositeOf (rankEvaluations evs ! i)"
    by (simp add: rankEvaluations_composite i j)
qed

theorem rankEvaluations_dense_permutation_witness:
  "scenarioGroup \<noteq> []
   \<and> mset (map overallRanking (rankEvaluations scenarioGroup))
       = mset [1..<Suc (length scenarioGroup)]
   \<and> map overallRanking (rankEvaluations scenarioGroup) = [1, 2, 3]
   \<and> map compositeOf scenarioGroup = [9, 15 / 2, 11 / 2]"
proof -
  have ne: "scenarioGroup \<noteq> []" by (simp add: scenarioGroup_def)
  from rankEvaluations_dense_permutation [OF ne]
  have "mset (map overallRanking (rankEvaluations scenarioGroup))
          = mset [1..<Suc (length scenarioGroup)]" by blast
  moreover have "map overallRanking (rankEvaluations scenarioGroup) = [1, 2, 3]"
    by code_simp
  moreover have "map compositeOf scenarioGroup = [9, 15 / 2, 11 / 2]"
    by code_simp
  ultimately show ?thesis using ne by blast
qed

text \<open>
  Claim C10. On the empty sequence \<open>rankEvaluations\<close> returns the empty sequence (its own
  argument, with the store untouched); the function has no failing branch.
\<close>

theorem rankEvaluations_empty:
  "rankEvaluations [] = [] \<and> rankEvaluationsRefs h [] = (h, [])"
  by (simp add: rankEvaluations_def rankEvaluationsRefs_def)

section \<open>The Ranker over the object store\<close>

lemma withCompositeRefs_eq: "withCompositeRefs h refs = withComposite (map h refs)"
proof (rule nth_equalityI)
  show "length (withCompositeRefs h refs) = length (withComposite (map h refs))"
    by (simp add: withCompositeRefs_def withComposite_def)
next
  fix i assume "i < length (withCompositeRefs h refs)"
  then have "i < length refs" by (simp add: withCompositeRefs_def)
  then show "withCompositeRefs h refs ! i = withComposite (map h refs) ! i"
    by (simp add: withCompositeRefs_def withComposite_def nth_enumerate_eq)
qed

lemma assignRefs_frame:
  assumes "r \<notin> set refs" and "\<forall>w\<in>set ws. originalIndex w < length refs"
  shows "fold (\<lambda>(index, w) h'.
             h'(refs ! originalIndex w :=
                  (h' (refs ! originalIndex w))\<lparr>overallRanking := index + 1\<rparr>))
          (enumerate k ws) h r = h r"
  using assms(2)
proof (induction ws arbitrary: k h)
  case Nil
  then show ?case by simp
next
  case (Cons w ws)
  then have "refs ! originalIndex w \<in> set refs" by simp
  with assms(1) have "refs ! originalIndex w \<noteq> r" by auto
  with Cons show ?case by simp
qed

lemma assignRefs_only_rank:
  "\<exists>n. fold (\<lambda>(index, w) h'.
             h'(refs ! originalIndex w :=
                  (h' (refs ! originalIndex w))\<lparr>overallRanking := index + 1\<rparr>))
          (enumerate k ws) h r = (h r)\<lparr>overallRanking := n\<rparr>"
proof (induction ws arbitrary: k h)
  case Nil
  have "h r = (h r)\<lparr>overallRanking := overallRanking (h r)\<rparr>" by simp
  then show ?case by (metis enumerate_simps(1) fold_simps(1))
next
  case (Cons w ws)
  let ?step = "\<lambda>(index, w) h'.
             h'(refs ! originalIndex w :=
                  (h' (refs ! originalIndex w))\<lparr>overallRanking := index + 1\<rparr>)"
  let ?h1 = "h(refs ! originalIndex w := (h (refs ! originalIndex w))\<lparr>overallRanking := k + 1\<rparr>)"
  have unfold: "fold ?step (enumerate k (w # ws)) h = fold ?step (enumerate (Suc k) ws) ?h1"
    by (simp del: fun_upd_apply)
  from Cons [of "Suc k" ?h1] obtain n where
    n: "fold ?step (enumerate (Suc k) ws) ?h1 r = (?h1 r)\<lparr>overallRanking := n\<rparr>" by blast
  have "(?h1 r)\<lparr>overallRanking := n\<rparr> = (h r)\<lparr>overallRanking := n\<rparr>" by simp
  with n have "fold ?step (enumerate (Suc k) ws) ?h1 r = (h r)\<lparr>overallRanking := n\<rparr>"
    by (rule trans)
  then show ?case unfolding unfold ..
qed

lemma assignRefs_values:
  assumes "distinct refs" and "\<forall>w\<in>set ws. originalIndex w < length refs"
  shows "map (fold (\<lambda>(index, w) h'.
             h'(refs ! originalIndex w :=
                  (h' (refs ! originalIndex w))\<lparr>overallRanking := index + 1\<rparr>))
          (enumerate k ws) h) refs
       = fold (\<lambda>(index, w) evs.
             evs[originalIndex w := (evs ! originalIndex w)\<lparr>overallRanking := index + 1\<rparr>])
          (enumerate k ws) (map h refs)"
  using assms(2)
proof (induction ws arbitrary: k h)
  case Nil
  then show ?case by simp
next
  case (Cons w ws)
  let ?i = "originalIndex w"
  let ?h1 = "h(refs ! ?i := (h (refs ! ?i))\<lparr>overallRanking := k + 1\<rparr>)"
  from Cons.prems have i: "?i < length refs" by simp
  have "map ?h1 refs = (map h refs)[?i := ((map h refs) ! ?i)\<lparr>overallRanking := k + 1\<rparr>]"
  proof (rule nth_equalityI)
    show "length (map ?h1 refs)
            = length ((map h refs)[?i := ((map h refs) ! ?i)\<lparr>overallRanking := k + 1\<rparr>])"
      by simp
  next
    fix j assume "j < length (map ?h1 refs)"
    then have j: "j < length refs" by simp
    with i assms(1) have "refs ! j = refs ! ?i \<longleftrightarrow> j = ?i" by (simp add: nth_eq_iff_index_eq)
    with i j show "map ?h1 refs ! j
            = (map h refs)[?i := ((map h refs) ! ?i)\<lparr>overallRanking := k + 1\<rparr>] ! j"
      by (cases "j = ?i") simp_all
  qed
  moreover from Cons.prems have "\<forall>v\<in>set ws. originalIndex v < length refs" by simp
  note Cons.IH [OF this, of "Suc k" ?h1]
  ultimately show ?case by (simp del: fun_upd_apply)
qed

lemma ordered_refs_bound:
  "\<forall>w\<in>set (arraySort byCompositeDesc (withCompositeRefs h refs)). originalIndex w < length refs"
proof
  fix w assume "w \<in> set (arraySort byCompositeDesc (withCompositeRefs h refs))"
  then have "w \<in> set (withCompositeRefs h refs)" by (simp add: set_arraySort)
  then obtain i where "i < length refs" "w = withCompositeRefs h refs ! i"
    by (auto simp: in_set_conv_nth withCompositeRefs_def)
  then show "originalIndex w < length refs"
    by (simp add: withCompositeRefs_def nth_enumerate_eq)
qed

text \<open>
  Claim C7, as the code has it. \<open>rankEvaluations\<close> returns its own argument: the same
  array, in input order. It assigns the ranks by writing \<open>overallRanking\<close> into the caller's
  records in place; it changes no other field and no record that is not an element of the
  argument. When the elements are pairwise different objects, the values read back through
  the returned array are those of the value-level \<open>rankEvaluations\<close>.
\<close>

theorem rankEvaluationsRefs_in_place:
  "snd (rankEvaluationsRefs h refs) = refs
   \<and> (\<forall>r. r \<notin> set refs \<longrightarrow> fst (rankEvaluationsRefs h refs) r = h r)
   \<and> (\<forall>r. fst (rankEvaluationsRefs h refs) r
            = (h r)\<lparr>overallRanking := overallRanking (fst (rankEvaluationsRefs h refs) r)\<rparr>)
   \<and> (distinct refs \<longrightarrow>
         map (fst (rankEvaluationsRefs h refs)) refs = rankEvaluations (map h refs))"
proof (intro conjI allI impI)
  show "snd (rankEvaluationsRefs h refs) = refs"
    by (simp add: rankEvaluationsRefs_def)
next
  fix r assume "r \<notin> set refs"
  from assignRefs_frame [OF this ordered_refs_bound, where k = 0 and h = h and ?h1 = h]
  show "fst (rankEvaluationsRefs h refs) r = h r"
    by (simp add: rankEvaluationsRefs_def assignRankingsRefs_def)
next
  fix r
  have "\<exists>n. fst (rankEvaluationsRefs h refs) r = (h r)\<lparr>overallRanking := n\<rparr>"
  proof (cases "refs = []")
    case True
    have "h r = (h r)\<lparr>overallRanking := overallRanking (h r)\<rparr>" by simp
    then have "\<exists>n. h r = (h r)\<lparr>overallRanking := n\<rparr>" ..
    with True show ?thesis by (simp add: rankEvaluationsRefs_def)
  next
    case False
    with assignRefs_only_rank [of refs 0 "arraySort byCompositeDesc (withCompositeRefs h refs)" h r]
    show ?thesis by (simp add: rankEvaluationsRefs_def assignRankingsRefs_def)
  qed
  then obtain n where "fst (rankEvaluationsRefs h refs) r = (h r)\<lparr>overallRanking := n\<rparr>" ..
  then show "fst (rankEvaluationsRefs h refs) r
            = (h r)\<lparr>overallRanking := overallRanking (fst (rankEvaluationsRefs h refs) r)\<rparr>"
    by simp
next
  assume d: "distinct refs"
  show "map (fst (rankEvaluationsRefs h refs)) refs = rankEvaluations (map h refs)"
  proof (cases "refs = []")
    case True
    then show ?thesis by (simp add: rankEvaluationsRefs_def rankEvaluations_def)
  next
    case False
    with assignRefs_values [OF d ordered_refs_bound, where k = 0 and h = h and ?h1 = h]
    show ?thesis
      by (simp add: rankEvaluationsRefs_def rankEvaluations_def assignRankingsRefs_def
            assignRankings_def withCompositeRefs_eq)
  qed
qed

theorem rankEvaluationsRefs_in_place_witness:
  "(2::nat) \<notin> set [0, 1] \<and> distinct [0, 1 :: nat]
   \<and> fst (rankEvaluationsRefs twoRecordStore [0, 1]) 2 = twoRecordStore 2
   \<and> map (fst (rankEvaluationsRefs twoRecordStore [0, 1])) [0, 1]
       = rankEvaluations (map twoRecordStore [0, 1])"
proof -
  have a: "(2::nat) \<notin> set [0, 1]" by simp
  have d: "distinct [0, 1 :: nat]" by simp
  note t = rankEvaluationsRefs_in_place [of twoRecordStore "[0, 1]"]
  from t a have "fst (rankEvaluationsRefs twoRecordStore [0, 1]) 2 = twoRecordStore 2" by blast
  moreover from t d have "map (fst (rankEvaluationsRefs twoRecordStore [0, 1])) [0, 1]
       = rankEvaluations (map twoRecordStore [0, 1])" by blast
  ultimately show ?thesis using a d by blast
qed

text \<open>
  Claim C7 as stated fails: on a store with a weaker record at reference 0 and a stronger
  one at reference 1, the returned array is the input array \<open>[0, 1]\<close>, whose composite
  scores ascend (it is not in ranked order), and the caller's record at reference 0, whose
  rank was 0 before the call, carries rank 2 after it.
\<close>

theorem rankEvaluations_mutates_input_order:
  "snd (rankEvaluationsRefs twoRecordStore [0, 1]) = [0, 1]
   \<and> compositeOf (twoRecordStore 0) = 11 / 2
   \<and> compositeOf (twoRecordStore 1) = 9
   \<and> overallRanking (twoRecordStore 0) = 0
   \<and> overallRanking (fst (rankEvaluationsRefs twoRecordStore [0, 1]) 0) = 2
   \<and> overallRanking (fst (rankEvaluationsRefs twoRecordStore [0, 1]) 1) = 1"
  by code_simp

section \<open>Claims about the Judge Client\<close>

lemma mapFalsehoods_succeeds:
  "(\<exists>r. mapFalsehoods clock k fs = Inr r) \<longleftrightarrow> JNull \<notin> set fs"
proof (induction fs arbitrary: k)
  case Nil
  then show ?case by simp
next
  case (Cons f fs)
  show ?case
  proof (cases "f = JNull")
    case True
    then show ?thesis by simp
  next
    case False
    with Cons [of "Suc k"] show ?thesis by (auto split: sum.splits)
  qed
qed

lemma convertParsed_succeeds:
  "(\<exists>r. convertParsed clock parsed = Inr r)
     \<longleftrightarrow> (\<exists>fs. parsed \<noteq> JNull \<and> getField parsed ''falsehoods'' = Value (JArr fs)
                \<and> JNull \<notin> set fs)"
proof (cases "parsed = JNull")
  case True
  then show ?thesis by (simp add: convertParsed_def)
next
  case False
  show ?thesis
  proof (cases "getField parsed ''falsehoods''")
    case Undefined
    with False show ?thesis by (simp add: convertParsed_def)
  next
    case (Value v)
    show ?thesis
    proof (cases v)
      case (JArr fs)
      with False Value mapFalsehoods_succeeds [of clock 0 fs] show ?thesis
        by (auto simp: convertParsed_def split: sum.splits)
    qed (use False Value in \<open>simp_all add: convertParsed_def\<close>)
  qed
qed

lemma evaluateDentalNotes_error_shape:
  assumes "evaluateDentalNotes clock reply = Inl e"
  shows "\<exists>m. e = JsError (''OpenAI-eval-error: '' @ m)"
  using assms by (auto simp: evaluateDentalNotes_def split: sum.splits)

text \<open>
  Claim C6, as the code has it. An empty response, content that is not valid JSON, a
  response that parses to \<open>null\<close>, and a response whose \<open>falsehoods\<close> member is not an array
  of non-null elements make \<open>evaluateDentalNotes\<close> fail. Every failure, a transport failure
  included, is the same kind of error: a plain \<open>Error\<close> whose message is
  \<open>OpenAI-eval-error: \<close> followed by the message of the cause. Every other parsed response
  is converted into a score record, whatever its other fields are.
\<close>

theorem evaluateDentalNotes_outcomes:
  "evaluateDentalNotes clock (ApiFailure m) = Inl (JsError (''OpenAI-eval-error: '' @ m))
   \<and> evaluateDentalNotes clock NoContent
       = Inl (JsError ''OpenAI-eval-error: No response from OpenAI'')
   \<and> evaluateDentalNotes clock (MalformedJson m) = Inl (JsError (''OpenAI-eval-error: '' @ m))
   \<and> ((\<exists>r. evaluateDentalNotes clock (ParsedJson parsed) = Inr r)
        \<longleftrightarrow> (\<exists>fs. parsed \<noteq> JNull \<and> getField parsed ''falsehoods'' = Value (JArr fs)
                   \<and> JNull \<notin> set fs))
   \<and> (\<forall>e. evaluateDentalNotes clock reply = Inl e
          \<longrightarrow> (\<exists>msg. e = JsError (''OpenAI-eval-error: '' @ msg)))"
proof (intro conjI allI impI)
  show "evaluateDentalNotes clock (ApiFailure m) = Inl (JsError (''OpenAI-eval-error: '' @ m))"
    by (simp add: evaluateDentalNotes_def tryEvaluate_def)
  show "evaluateDentalNotes clock NoContent
       = Inl (JsError ''OpenAI-eval-error: No response from OpenAI'')"
    by (simp add: evaluateDentalNotes_def tryEvaluate_def)
  show "evaluateDentalNotes clock (MalformedJson m) = Inl (JsError (''OpenAI-eval-error: '' @ m))"
    by (simp add: evaluateDentalNotes_def tryEvaluate_def)
  have "(\<exists>r. evaluateDentalNotes clock (ParsedJson parsed) = Inr r)
          \<longleftrightarrow> (\<exists>r. convertParsed clock parsed = Inr r)"
    by (auto simp: evaluateDentalNotes_def tryEvaluate_def split: sum.splits)
  then show "(\<exists>r. evaluateDentalNotes clock (ParsedJson parsed) = Inr r)
        \<longleftrightarrow> (\<exists>fs. parsed \<noteq> JNull \<and> getField parsed ''falsehoods'' = Value (JArr fs)
                   \<and> JNull \<notin> set fs)"
    by (simp only: convertParsed_succeeds)
  fix e assume "evaluateDentalNotes clock reply = Inl e"
  then show "\<exists>msg. e = JsError (''OpenAI-eval-error: '' @ msg)"
    by (rule evaluateDentalNotes_error_shape)
qed

theorem evaluateDentalNotes_outcomes_witness:
  "evaluateDentalNotes fixedClock (ParsedJson JNull)
     = Inl (JsError ''OpenAI-eval-error: Cannot read properties of null (reading detailScore)'')
   \<and> (\<exists>msg. JsError ''OpenAI-eval-error: Cannot read properties of null (reading detailScore)''
              = JsError (''OpenAI-eval-error: '' @ msg))
   \<and> (\<exists>r. evaluateDentalNotes fixedClock (ParsedJson offSchemaReply) = Inr r)"
proof -
  have a: "evaluateDentalNotes fixedClock (ParsedJson JNull)
     = Inl (JsError ''OpenAI-eval-error: Cannot read properties of null (reading detailScore)'')"
    by (simp add: evaluateDentalNotes_def tryEvaluate_def convertParsed_def)
  note t = evaluateDentalNotes_outcomes [of fixedClock "[]" offSchemaReply "ParsedJson JNull"]
  from t a have b: "\<exists>msg. JsError ''OpenAI-eval-error: Cannot read properties of null (reading detailScore)''
              = JsError (''OpenAI-eval-error: '' @ msg)" by blast
  have "offSchemaReply \<noteq> JNull \<and> getField offSchemaReply ''falsehoods'' = Value (JArr [])
          \<and> JNull \<notin> set []"
    by (simp add: offSchemaReply_def)
  with t have c: "\<exists>r. evaluateDentalNotes fixedClock (ParsedJson offSchemaReply) = Inr r" by blast
  from a b c show ?thesis by blast
qed

text \<open>
  Claim C6 as stated fails: a parsed reply without any score, explanation or summary field
  is converted into a score record whose fields are \<open>undefined\<close>; and the failure for an
  empty response is the very error a transport failure with the same message produces.
\<close>

theorem evaluateDentalNotes_off_schema_accepted:
  "evaluateDentalNotes fixedClock (ParsedJson offSchemaReply)
     = Inr \<lparr>rawDetailScore =
              \<lparr>rawScore = Undefined, rawExplanation = Undefined, rawExamples = Undefined\<rparr>,
            rawTruthfulnessScore =
              \<lparr>rawScore = Undefined, rawExplanation = Undefined, rawExamples = Undefined\<rparr>,
            rawFalsehoods = [], rawSummary = Undefined, rawOverallRanking = 0\<rparr>
   \<and> evaluateDentalNotes fixedClock NoContent
       = evaluateDentalNotes fixedClock (ApiFailure ''No response from OpenAI'')"
  by (simp add: evaluateDentalNotes_def tryEvaluate_def convertParsed_def offSchemaReply_def)

section \<open>Claims about the Cross-Group Summarizer\<close>

lemma arraySort_pair:
  "arraySort cmp [x, y] = (if cmp x y \<le> 0 then [x, y] else [y, x])"
  by (simp add: arraySort_def)

lemma not_array_index_gpt4o: "\<not> isArrayIndex ''notes-gpt4o''"
  by (simp add: isArrayIndex_def isDigit_def)

lemma not_array_index_claude: "\<not> isArrayIndex ''notes-claude''"
  by (simp add: isArrayIndex_def isDigit_def)

lemma scenario_stats:
  assumes "noteFileName a1 = ''notes-gpt4o''" "noteFileName a2 = ''notes-gpt4o''"
      and "noteFileName c1 = ''notes-claude''" "noteFileName c2 = ''notes-claude''"
  shows "noteTypeStats [a1, c1, a2, c2]
           = Inr [statsOf (''notes-gpt4o'', [a1, a2]), statsOf (''notes-claude'', [c1, c2])]"
  using assms
  by (simp add: noteTypeStats_def objectPrototypeKeys_def objectEntries_def
        not_array_index_gpt4o not_array_index_claude)

lemma scenario_means:
  assumes "compositeOf (results x) = p" "compositeOf (results y) = q"
  shows "meanComposite [x, y] = (p + q) / 2"
  using assms
  by (simp add: meanComposite_def meanDetail_def meanTruthfulness_def compositeOf_def
        field_simps)

lemma scenario_consistency:
  assumes "compositeOf (results x) = p" "compositeOf (results y) = q"
  shows "consistencyOf (statsOf (fname, [x, y]))
           = \<lparr>consistencyFilename = fname,
              variance = ((p - (p + q) / 2) ^ 2 + (q - (p + q) / 2) ^ 2) / 2,
              scores = [p, q]\<rparr>"
  using assms by (simp add: consistencyOf_def statsOf_def Let_def)

lemma roundTenth_8: "roundTenth 8 = 8"
  by code_simp

lemma generateCommentary_array:
  "snd (generateCommentary r)
     = arraySort (\<lambda>a b. avgTruthfulnessScore b - avgTruthfulnessScore a)
         (arraySort (\<lambda>a b. avgDetailScore b - avgDetailScore a) r)"
  by (cases r) (simp_all add: generateCommentary_def Let_def arraySort_def)

lemma generateCommentary_exceptional:
  assumes "r \<noteq> []" and "variance (mostConsistentOf r) < 1 / 2"
  shows "ExceptionalConsistency (consistencyFilename (mostConsistentOf r))
           \<in> set (fst (generateCommentary r))"
proof -
  from assms(2) have "variance (hd (arraySort (\<lambda>a b. variance a - variance b)
           (map consistencyOf (arraySort (\<lambda>a b. avgTruthfulnessScore b - avgTruthfulnessScore a)
         (arraySort (\<lambda>a b. avgDetailScore b - avgDetailScore a) r))))) < 1 / 2"
    by (simp add: mostConsistentOf_def generateCommentary_array)
  with assms(1) show ?thesis
    by (simp add: mostConsistentOf_def generateCommentary_array)
       (simp add: generateCommentary_def Let_def)
qed

lemma most_consistent_of_two:
  assumes "variance (consistencyOf y) < variance (consistencyOf x)"
  shows "mostConsistentOf [x, y] = consistencyOf y"
  using assms
  by (simp add: mostConsistentOf_def generateCommentary_array arraySort_pair)

text \<open>
  Claim C8. Two groups, each with a record for \<open>notes-gpt4o\<close> (composite scores 9 and 7)
  and a record for \<open>notes-claude\<close> (composite scores 8 and 8): the summarizer computes mean
  composite 8 for both, variance 1 for \<open>notes-gpt4o\<close> and variance 0 for \<open>notes-claude\<close>, and
  names \<open>notes-claude\<close> as the most consistent note type in its commentary.
\<close>

theorem two_group_scenario:
  assumes "noteFileName a1 = ''notes-gpt4o''" and "noteFileName a2 = ''notes-gpt4o''"
      and "noteFileName c1 = ''notes-claude''" and "noteFileName c2 = ''notes-claude''"
      and "compositeOf (results a1) = 9" and "compositeOf (results a2) = 7"
      and "compositeOf (results c1) = 8" and "compositeOf (results c2) = 8"
  shows "\<exists>stats view.
           noteTypeStats [a1, c1, a2, c2] = Inr stats
         \<and> map filename stats = [''notes-gpt4o'', ''notes-claude'']
         \<and> map statEvaluations stats = [[a1, a2], [c1, c2]]
         \<and> map meanComposite (map statEvaluations stats) = [8, 8]
         \<and> map avgCompositeScore stats = [8, 8]
         \<and> map variance (map consistencyOf stats) = [1, 0]
         \<and> consistencyFilename (mostConsistentOf (rankNoteTypes stats)) = ''notes-claude''
         \<and> BatchSummary [a1, c1, a2, c2] = Inr (Some view)
         \<and> ExceptionalConsistency ''notes-claude'' \<in> set (commentary view)"
proof -
  let ?sA = "statsOf (''notes-gpt4o'', [a1, a2])"
  let ?sC = "statsOf (''notes-claude'', [c1, c2])"
  let ?stats = "[?sA, ?sC]"
  have stats: "noteTypeStats [a1, c1, a2, c2] = Inr ?stats"
    using assms(1-4) by (rule scenario_stats)
  have mA: "meanComposite [a1, a2] = 8"
    using scenario_means [OF assms(5,6)] by simp
  have mC: "meanComposite [c1, c2] = 8"
    using scenario_means [OF assms(7,8)] by simp
  have avgA: "avgCompositeScore ?sA = 8" by (simp add: statsOf_def mA roundTenth_8)
  have avgC: "avgCompositeScore ?sC = 8" by (simp add: statsOf_def mC roundTenth_8)
  have vA: "variance (consistencyOf ?sA) = 1"
    by (simp add: scenario_consistency [OF assms(5,6)] power2_eq_square)
  have vC: "variance (consistencyOf ?sC) = 0"
    by (simp add: scenario_consistency [OF assms(7,8)])
  have ranked: "rankNoteTypes ?stats = ?stats"
    by (simp add: rankNoteTypes_def arraySort_pair byAvgCompositeDesc_def avgA avgC)
  have most: "mostConsistentOf ?stats = consistencyOf ?sC"
    by (rule most_consistent_of_two) (simp add: vA vC)
  have nameC: "consistencyFilename (consistencyOf ?sC) = ''notes-claude''"
    by (simp add: consistencyOf_def statsOf_def Let_def)
  have "variance (mostConsistentOf ?stats) < 1 / 2" by (simp add: most vC)
  from generateCommentary_exceptional [OF _ this]
  have exc: "ExceptionalConsistency ''notes-claude'' \<in> set (fst (generateCommentary ?stats))"
    by (simp add: most nameC)
  let ?view = "\<lparr>rankingCards = snd (generateCommentary ?stats),
                commentary = fst (generateCommentary ?stats),
                transcriptNames = uniqueInOrder [] (map transcriptName [a1, c1, a2, c2])\<rparr>"
  have view: "BatchSummary [a1, c1, a2, c2] = Inr (Some ?view)"
    by (simp add: BatchSummary_def stats ranked split_beta)
  show ?thesis
  proof (rule exI [of _ ?stats], rule exI [of _ ?view], intro conjI)
    show "noteTypeStats [a1, c1, a2, c2] = Inr ?stats" by (fact stats)
    show "map filename ?stats = [''notes-gpt4o'', ''notes-claude'']"
      by (simp add: statsOf_def)
    show "map statEvaluations ?stats = [[a1, a2], [c1, c2]]"
      by (simp add: statsOf_def)
    show "map meanComposite (map statEvaluations ?stats) = [8, 8]"
      by (simp add: statsOf_def mA mC)
    show "map avgCompositeScore ?stats = [8, 8]"
      using avgA avgC by simp
    show "map variance (map consistencyOf ?stats) = [1, 0]"
      using vA vC by simp
    show "consistencyFilename (mostConsistentOf (rankNoteTypes ?stats)) = ''notes-claude''"
      by (simp only: ranked most nameC)
    show "BatchSummary [a1, c1, a2, c2] = Inr (Some ?view)" by (fact view)
    show "ExceptionalConsistency ''notes-claude'' \<in> set (commentary ?view)"
      using exc by simp
  qed
qed

theorem two_group_scenario_witness:
  "map noteFileName twoGroupScenario
     = [''notes-gpt4o'', ''notes-claude'', ''notes-gpt4o'', ''notes-claude'']
   \<and> map compositeOf (map results twoGroupScenario) = [9, 8, 7, 8]
   \<and> (\<exists>stats view.
         noteTypeStats twoGroupScenario = Inr stats
       \<and> map avgCompositeScore stats = [8, 8]
       \<and> map variance (map consistencyOf stats) = [1, 0]
       \<and> consistencyFilename (mostConsistentOf (rankNoteTypes stats)) = ''notes-claude''
       \<and> BatchSummary twoGroupScenario = Inr (Some view)
       \<and> ExceptionalConsistency ''notes-claude'' \<in> set (commentary view))"
proof -
  have n: "map noteFileName twoGroupScenario
     = [''notes-gpt4o'', ''notes-claude'', ''notes-gpt4o'', ''notes-claude'']"
    by (simp add: twoGroupScenario_def evaluationWith_def)
  have c: "map compositeOf (map results twoGroupScenario) = [9, 8, 7, 8]"
    by (simp add: twoGroupScenario_def evaluationWith_def resultsWith_def compositeOf_def)
  from n c two_group_scenario
    [of "evaluationWith ''transcript1'' ''notes-gpt4o'' 9 9"
        "evaluationWith ''transcript2'' ''notes-gpt4o'' 7 7"
        "evaluationWith ''transcript1'' ''notes-claude'' 8 8"
        "evaluationWith ''transcript2'' ''notes-claude'' 8 8"]
  have "\<exists>stats view.
         noteTypeStats twoGroupScenario = Inr stats
       \<and> map avgCompositeScore stats = [8, 8]
       \<and> map variance (map consistencyOf stats) = [1, 0]
       \<and> consistencyFilename (mostConsistentOf (rankNoteTypes stats)) = ''notes-claude''
       \<and> BatchSummary twoGroupScenario = Inr (Some view)
       \<and> ExceptionalConsistency ''notes-claude'' \<in> set (commentary view)"
    unfolding twoGroupScenario_def by auto
  with n c show ?thesis by blast
qed

subsection \<open>The insertion-ordered dictionary\<close>








subsection \<open>Sorting by a key, descending\<close>





subsection \<open>Grouping by file name\<close>










text \<open>
  The cards are rendered from the array after \<open>generateCommentary\<close> has sorted it in place
  by detail and then by truthfulness: here \<open>notes-b\<close> (7.5) is shown first, before
  \<open>notes-a\<close> (8).
\<close>

lemma cards_follow_last_sort:
  "(case BatchSummary displayScenario of
      Inr (Some view) \<Rightarrow>
        map filename (rankingCards view) = [''notes-b'', ''notes-a'']
      \<and> map avgCompositeScore (rankingCards view) = [15 / 2, 8]
    | other \<Rightarrow> False)"
  by code_simp

section \<open>Properties of the Batch Orchestrator\<close>

lemma judgeCalls_append: "judgeCalls (xs @ ys) = judgeCalls xs @ judgeCalls ys"
  by (induction xs rule: judgeCalls.induct) simp_all

lemma runTask_calls: "calls (runTask env ms task st) = Suc (calls st)"
  by (simp add: runTask_def callJudge_def pushEvaluation_def Let_def split: sum.splits)

lemma runTask_judgeCalls:
  "judgeCalls (events (runTask env ms task st)) = judgeCalls (events st) @ [promptOf task]"
  by (simp add: runTask_def callJudge_def pushEvaluation_def Let_def judgeCalls_append
        split: sum.splits)

lemma runTask_allEvaluations:
  "allEvaluations (runTask env ms task st)
     = allEvaluations st @ (case attempt env (calls st, task) of None \<Rightarrow> [] | Some e \<Rightarrow> [e])"
  by (simp add: runTask_def callJudge_def pushEvaluation_def Let_def attempt_def
        split: sum.splits)

lemma runTask_delays:
  "Delay d \<in> set (events (runTask env ms task st)) \<Longrightarrow> d = ms \<or> Delay d \<in> set (events st)"
  by (auto simp: runTask_def callJudge_def pushEvaluation_def Let_def split: sum.splits)

lemma fold_runTask_calls: "calls (fold (runTask env ms) ts st) = calls st + length ts"
  by (induction ts arbitrary: st) (simp_all add: runTask_calls)

lemma fold_runTask_judgeCalls:
  "judgeCalls (events (fold (runTask env ms) ts st)) = judgeCalls (events st) @ map promptOf ts"
  by (induction ts arbitrary: st) (simp_all add: runTask_judgeCalls)

lemma fold_runTask_allEvaluations:
  "allEvaluations (fold (runTask env ms) ts st)
     = allEvaluations st @ List.map_filter (attempt env) (enumerate (calls st) ts)"
proof (induction ts arbitrary: st)
  case Nil
  then show ?case by (simp add: map_filter_simps)
next
  case (Cons t ts)
  show ?case
    by (simp add: Cons runTask_allEvaluations runTask_calls map_filter_simps
          split: option.splits)
qed

lemma fold_runTask_delays:
  "Delay d \<in> set (events (fold (runTask env ms) ts st)) \<Longrightarrow> d = ms \<or> Delay d \<in> set (events st)"
proof (induction ts arbitrary: st)
  case Nil
  then show ?case by simp
next
  case (Cons t ts)
  from Cons.prems have "Delay d \<in> set (events (fold (runTask env ms) ts (runTask env ms t st)))"
    by simp
  from Cons.IH [OF this] runTask_delays [of d env ms t st] show ?case by blast
qed

lemma inMemoryLoop_fold:
  "inMemoryLoop env batch st = fold (runTask env 1000) (collectTasks batch) st"
proof (induction batch arbitrary: st)
  case Nil
  then show ?case by simp
next
  case (Cons entry batch)
  obtain tn grp where entry: "entry = (tn, grp)" by (cases entry)
  show ?case
  proof (cases "transcript grp")
    case None
    with entry Cons show ?thesis by simp
  next
    case (Some tc)
    have "fold (\<lambda>nf. runTask env 1000 (taskFor tn tc nf)) (groupNotes grp) st
            = fold (runTask env 1000) (map (taskFor tn tc) (groupNotes grp)) st"
      by (simp add: fold_map comp_def)
    with entry Some Cons show ?thesis by simp
  qed
qed

lemma chunkLoop_fold:
  assumes "0 < chunkSize"
  shows "chunkLoop env chunkSize allTasks i st
           = Some (fold (runTask env 100) (drop i allTasks) st)"
proof (induction "length allTasks - i" arbitrary: i st rule: less_induct)
  case less
  show ?case
  proof (cases "i < length allTasks")
    case False
    then show ?thesis by (subst chunkLoop.simps) simp
  next
    case True
    with assms have smaller: "length allTasks - (i + chunkSize) < length allTasks - i" by simp
    have split: "drop i allTasks
                   = slice allTasks i (i + chunkSize) @ drop (i + chunkSize) allTasks"
      by (simp add: slice_def add.commute [of i chunkSize] flip: drop_drop)
    have "chunkLoop env chunkSize allTasks i st
            = chunkLoop env chunkSize allTasks (i + chunkSize)
                (fold (runTask env 100) (slice allTasks i (i + chunkSize)) st)"
      using True by (subst chunkLoop.simps) simp
    also have "\<dots> = Some (fold (runTask env 100) (drop (i + chunkSize) allTasks)
                (fold (runTask env 100) (slice allTasks i (i + chunkSize)) st))"
      by (rule less [OF smaller])
    also have "\<dots> = Some (fold (runTask env 100) (drop i allTasks) st)"
      by (subst split) simp
    finally show ?thesis .
  qed
qed

lemma countFiles_sum:
  "countFiles batch = sum_list (map (\<lambda>(tn, grp). length (groupNotes grp)) batch)"
proof -
  have "foldl (\<lambda>sum (tn, grp). sum + length (groupNotes grp)) a batch
          = a + sum_list (map (\<lambda>(tn, grp). length (groupNotes grp)) batch)" for a
    by (induction batch arbitrary: a) (auto simp: split_beta)
  from this [of 0] show ?thesis by (simp add: countFiles_def)
qed

lemma length_collectTasks:
  "length (collectTasks batch)
     = sum_list (map (\<lambda>(tn, grp). case transcript grp of None \<Rightarrow> 0
                                   | Some tc \<Rightarrow> length (groupNotes grp)) batch)"
  by (induction batch) (auto split: option.splits)

lemma evaluateBatchInChunks_fold:
  assumes "0 < chunkSize"
  shows "evaluateBatchInChunks env chunkSize batch
           = Some (finish (fold (runTask env 100) (collectTasks batch) initialExec))"
  using chunkLoop_fold [OF assms, of env "collectTasks batch" 0 initialExec]
  by (simp add: evaluateBatchInChunks_def)

lemma evaluateBatchInMemory_fold:
  "evaluateBatchInMemory env batch
     = finish (fold (runTask env 1000) (collectTasks batch) initialExec)"
  by (simp add: evaluateBatchInMemory_def inMemoryLoop_fold)



lemma chooseStrategy_cases:
  "chooseStrategy n = (if 100 < n then PartialCap 50 else if 5 < n then Chunked 5 else Direct)"
  by (simp add: chooseStrategy_def)

lemma POST_batch_direct:
  assumes "countFiles batch \<le> 5"
  shows "map_option (\<lambda>(resp, st). (evaluations resp, st)) (POST_batch env batch)
           = Some (evaluateBatchInMemory env batch)"
  using assms by (simp add: POST_batch_def chooseStrategy_def Let_def split: prod.splits)

lemma POST_batch_chunked:
  assumes "5 < countFiles batch" and "countFiles batch \<le> 100"
  shows "map_option (\<lambda>(resp, st). (evaluations resp, st)) (POST_batch env batch)
           = evaluateBatchInChunks env 5 batch"
  using assms
  by (simp add: POST_batch_def chooseStrategy_def Let_def option.map_comp comp_def split_beta
        option.map_ident)

lemma POST_batch_partial:
  assumes "100 < countFiles batch"
  shows "POST_batch env batch
           = Some (\<lparr>success = True,
                    evaluations = fst (evaluatePartialBatch env batch 50),
                    isPartial = Some True,
                    totalFiles = Some (countFiles batch),
                    processedFiles = Some (length (fst (evaluatePartialBatch env batch 50)))\<rparr>,
                   snd (evaluatePartialBatch env batch 50))"
  using assms by (simp add: POST_batch_def chooseStrategy_def Let_def split: prod.splits)















section \<open>Claims about the Batch Orchestrator\<close>

text \<open>
  Claim C9. For every batch, every judge (an outcome for each call, hence for each task)
  and every positive chunk size, \<open>evaluateBatchInChunks\<close> returns, and returns the same
  sequence of evaluations as \<open>evaluateBatchInMemory\<close>: the same records in the same order
  with the same ranks, after the same judge calls in the same order.
\<close>

theorem chunked_equals_in_memory:
  assumes "0 < chunkSize"
  shows "map_option fst (evaluateBatchInChunks env chunkSize batch)
           = Some (fst (evaluateBatchInMemory env batch))
       \<and> map_option (\<lambda>r. judgeCalls (events (snd r))) (evaluateBatchInChunks env chunkSize batch)
           = Some (judgeCalls (events (snd (evaluateBatchInMemory env batch))))"
proof -
  let ?ts = "collectTasks batch"
  have c: "chunkLoop env chunkSize ?ts 0 initialExec = Some (fold (runTask env 100) ?ts initialExec)"
    using chunkLoop_fold [OF assms, of env ?ts 0 initialExec] by simp
  have m: "inMemoryLoop env batch initialExec = fold (runTask env 1000) ?ts initialExec"
    by (rule inMemoryLoop_fold)
  have "allEvaluations (fold (runTask env 100) ?ts initialExec)
          = allEvaluations (fold (runTask env 1000) ?ts initialExec)"
    by (simp add: fold_runTask_allEvaluations)
  moreover have "judgeCalls (events (fold (runTask env 100) ?ts initialExec))
          = judgeCalls (events (fold (runTask env 1000) ?ts initialExec))"
    by (simp add: fold_runTask_judgeCalls)
  ultimately show ?thesis
    by (simp add: evaluateBatchInChunks_def evaluateBatchInMemory_def c m finish_def)
qed

theorem chunked_equals_in_memory_witness:
  "(0::nat) < 5
   \<and> map_option fst (evaluateBatchInChunks okEnv 5 sixTaskBatch)
       = Some (fst (evaluateBatchInMemory okEnv sixTaskBatch))
   \<and> map_option (\<lambda>r. length (fst r)) (evaluateBatchInChunks okEnv 5 sixTaskBatch) = Some 6"
proof -
  have p: "(0::nat) < 5" by simp
  from chunked_equals_in_memory [OF p, of okEnv sixTaskBatch]
  have "map_option fst (evaluateBatchInChunks okEnv 5 sixTaskBatch)
       = Some (fst (evaluateBatchInMemory okEnv sixTaskBatch))" by (rule conjunct1)
  moreover have "length (fst (finish (fold (runTask okEnv 100) (collectTasks sixTaskBatch)
                    initialExec))) = 6"
    by code_simp
  then have "map_option (\<lambda>r. length (fst r)) (evaluateBatchInChunks okEnv 5 sixTaskBatch) = Some 6"
    by (simp add: evaluateBatchInChunks_fold)
  ultimately show ?thesis using p by blast
qed

text \<open>
  Claim C4, as the code has it. The strategy is chosen from the total number \<open>T\<close> of note
  files of all groups of the batch, the groups without a reference document included (their
  notes count towards \<open>T\<close> although enumeration skips them): \<open>T \<le> 5\<close> runs the direct path
  (every task in enumeration order, delays of 1000 ms), \<open>5 < T \<le> 100\<close> the chunked path with
  chunk size 5 (every task in enumeration order, delays of 100 ms), and \<open>T > 100\<close> the
  partial path with a cap of 50.
\<close>

theorem strategy_by_note_count:
  "countFiles batch = sum_list (map (\<lambda>(tn, grp). length (groupNotes grp)) batch)
   \<and> length (collectTasks batch)
       = sum_list (map (\<lambda>(tn, grp). case transcript grp of None \<Rightarrow> 0
                                     | Some tc \<Rightarrow> length (groupNotes grp)) batch)
   \<and> (countFiles batch \<le> 5 \<longrightarrow>
         map_option (\<lambda>(resp, st). (evaluations resp, st)) (POST_batch env batch)
           = Some (evaluateBatchInMemory env batch))
   \<and> (5 < countFiles batch \<and> countFiles batch \<le> 100 \<longrightarrow>
         map_option (\<lambda>(resp, st). (evaluations resp, st)) (POST_batch env batch)
           = evaluateBatchInChunks env 5 batch)
   \<and> (100 < countFiles batch \<longrightarrow>
         map_option (\<lambda>(resp, st). (evaluations resp, st)) (POST_batch env batch)
           = Some (evaluatePartialBatch env batch 50))
   \<and> (\<forall>d. Delay d \<in> set (events (snd (evaluateBatchInMemory env batch))) \<longrightarrow> d = 1000)
   \<and> (\<forall>d r. evaluateBatchInChunks env 5 batch = Some r \<and> Delay d \<in> set (events (snd r))
          \<longrightarrow> d = 100)
   \<and> evaluateBatchInMemory env batch
       = finish (fold (runTask env 1000) (collectTasks batch) initialExec)
   \<and> evaluateBatchInChunks env 5 batch
       = Some (finish (fold (runTask env 100) (collectTasks batch) initialExec))"
proof (intro conjI allI impI)
  show "countFiles batch = sum_list (map (\<lambda>(tn, grp). length (groupNotes grp)) batch)"
    by (rule countFiles_sum)
  show "length (collectTasks batch)
       = sum_list (map (\<lambda>(tn, grp). case transcript grp of None \<Rightarrow> 0
                                     | Some tc \<Rightarrow> length (groupNotes grp)) batch)"
    by (rule length_collectTasks)
  show "map_option (\<lambda>(resp, st). (evaluations resp, st)) (POST_batch env batch)
           = Some (evaluateBatchInMemory env batch)" if "countFiles batch \<le> 5"
    using that by (rule POST_batch_direct)
  show "map_option (\<lambda>(resp, st). (evaluations resp, st)) (POST_batch env batch)
           = evaluateBatchInChunks env 5 batch"
    if "5 < countFiles batch \<and> countFiles batch \<le> 100"
    using that by (simp add: POST_batch_chunked)
  show "map_option (\<lambda>(resp, st). (evaluations resp, st)) (POST_batch env batch)
           = Some (evaluatePartialBatch env batch 50)" if "100 < countFiles batch"
    using that by (simp add: POST_batch_partial)
  show mem: "evaluateBatchInMemory env batch
       = finish (fold (runTask env 1000) (collectTasks batch) initialExec)"
    by (rule evaluateBatchInMemory_fold)
  show chk: "evaluateBatchInChunks env 5 batch
       = Some (finish (fold (runTask env 100) (collectTasks batch) initialExec))"
    by (rule evaluateBatchInChunks_fold) simp
  show "d = 1000" if "Delay d \<in> set (events (snd (evaluateBatchInMemory env batch)))" for d
    using that fold_runTask_delays [of d env 1000 "collectTasks batch" initialExec]
    by (simp add: mem finish_def initialExec_def)
  show "d = 100"
    if "evaluateBatchInChunks env 5 batch = Some r \<and> Delay d \<in> set (events (snd r))" for d r
    using that fold_runTask_delays [of d env 100 "collectTasks batch" initialExec]
    by (auto simp: chk finish_def initialExec_def)
qed

theorem strategy_by_note_count_witness:
  "countFiles smallBatch \<le> 5
   \<and> map_option (\<lambda>(resp, st). (evaluations resp, st)) (POST_batch okEnv smallBatch)
       = Some (evaluateBatchInMemory okEnv smallBatch)
   \<and> Delay 1000 \<in> set (events (snd (evaluateBatchInMemory okEnv smallBatch)))
   \<and> countFiles mixedBatch = 6 \<and> length (collectTasks mixedBatch) = 1
   \<and> 5 < countFiles mixedBatch \<and> countFiles mixedBatch \<le> 100
   \<and> map_option (\<lambda>(resp, st). (evaluations resp, st)) (POST_batch okEnv mixedBatch)
       = evaluateBatchInChunks okEnv 5 mixedBatch
   \<and> 100 < countFiles bigBatch
   \<and> map_option (\<lambda>(resp, st). (evaluations resp, st)) (POST_batch okEnv bigBatch)
       = Some (evaluatePartialBatch okEnv bigBatch 50)"
proof -
  have s: "countFiles smallBatch \<le> 5" by code_simp
  have d: "Delay 1000 \<in> set (events (snd (evaluateBatchInMemory okEnv smallBatch)))"
    by code_simp
  have c: "countFiles mixedBatch = 6" by code_simp
  have l: "length (collectTasks mixedBatch) = 1" by code_simp
  from c have h: "5 < countFiles mixedBatch \<and> countFiles mixedBatch \<le> 100" by simp
  have "countFiles bigBatch = 101" by code_simp
  then have b: "100 < countFiles bigBatch" by simp
  from strategy_by_note_count [of smallBatch okEnv] s
  have r1: "map_option (\<lambda>(resp, st). (evaluations resp, st)) (POST_batch okEnv smallBatch)
       = Some (evaluateBatchInMemory okEnv smallBatch)" by blast
  from strategy_by_note_count [of mixedBatch okEnv] h
  have r2: "map_option (\<lambda>(resp, st). (evaluations resp, st)) (POST_batch okEnv mixedBatch)
       = evaluateBatchInChunks okEnv 5 mixedBatch" by blast
  from strategy_by_note_count [of bigBatch okEnv] b
  have r3: "map_option (\<lambda>(resp, st). (evaluations resp, st)) (POST_batch okEnv bigBatch)
       = Some (evaluatePartialBatch okEnv bigBatch 50)" by blast
  from s r1 d c l h r2 b r3 show ?thesis by (intro conjI) simp_all
qed

text \<open>
  Claim C4 as stated fails: a batch with one task after enumeration and five notes in a
  group without a reference document has \<open>T = 6\<close>, and runs the chunked path (the delay
  awaited is 100 ms), not the direct one.
\<close>

theorem strategy_counts_skipped_groups:
  "length (collectTasks mixedBatch) = 1
   \<and> countFiles mixedBatch = 6
   \<and> chooseStrategy (countFiles mixedBatch) = Chunked 5
   \<and> map_option (\<lambda>r. events (snd r)) (POST_batch okEnv mixedBatch)
       = Some [JudgeCall \<lparr>promptTranscript = ''Visit.'', promptNotes = ''Patient seen.'',
                           promptNoteFileName = ''n.txt''\<rparr>,
               Delay 100]"
proof -
  have l: "length (collectTasks mixedBatch) = 1" by code_simp
  have c: "countFiles mixedBatch = 6" by code_simp
  have s: "chooseStrategy (countFiles mixedBatch) = Chunked 5" by code_simp
  have "events (snd (finish (fold (runTask okEnv 100) (collectTasks mixedBatch) initialExec)))
          = [JudgeCall \<lparr>promptTranscript = ''Visit.'', promptNotes = ''Patient seen.'',
                           promptNoteFileName = ''n.txt''\<rparr>,
               Delay 100]" by code_simp
  then have "map_option (\<lambda>r. events (snd r)) (POST_batch okEnv mixedBatch)
       = Some [JudgeCall \<lparr>promptTranscript = ''Visit.'', promptNotes = ''Patient seen.'',
                           promptNoteFileName = ''n.txt''\<rparr>,
               Delay 100]"
    by (simp add: POST_batch_def s evaluateBatchInChunks_fold option.map_comp comp_def
          split_beta)
  with l c s show ?thesis by blast
qed








text \<open>
  The cap counts successful evaluations only (\<open>filesProcessed\<close> is not incremented when
  the judge fails): with a cap of 2 and a failing first call, three tasks are attempted.
\<close>

lemma partial_cap_counts_successes:
  "length (judgeCalls (events (snd (evaluatePartialBatch firstCallFailsEnv sixTaskBatch 2)))) = 3
   \<and> length (fst (evaluatePartialBatch firstCallFailsEnv sixTaskBatch 2)) = 2"
  by code_simp

section \<open>Ranking within the groups of a batch\<close>

subsection \<open>Positions of a group\<close>








subsection \<open>Ranking one group\<close>


















section \<open>Failure isolation\<close>



end
